theory Spec2Isabelle
  imports Complex_Main "HOL-Library.Word" "HOL-Library.AList"
begin

unbundle bit_operations_syntax

section \<open>Conventions of the embedding\<close>

text \<open>
  The development embeds two TypeScript classes of the CLI package:
  \<^verbatim>\<open>QLearningRouter\<close> (the tabular router) and \<^verbatim>\<open>FlashAttention\<close> (the attention kernels).

  \<^item> A JavaScript \<^verbatim>\<open>number\<close> that holds a quantity (Q-value, reward, TD error, score,
    weight) is a \<open>jsnum\<close>: a real number, one of the two infinities, or \<^verbatim>\<open>NaN\<close>. The
    arithmetic of doubles on finite operands is taken to be exact; the special values
    follow IEEE 754. Zero has no sign.
  \<^item> A \<^verbatim>\<open>Float32Array\<close> is a list of \<open>jsnum\<close>; every store into one rounds to single
    precision (\<open>fround\<close>). A read beyond its end gives \<^verbatim>\<open>undefined\<close>, which arithmetic
    turns into \<^verbatim>\<open>NaN\<close>; a store beyond its end is ignored.
  \<^item> The numbers of a configuration are finite: \<open>real\<close> for rates, \<open>nat\<close> for counts
    and sizes. Counts and array indices are \<open>nat\<close>; millisecond timestamps are \<open>int\<close>.
  \<^item> \<^verbatim>\<open>Date.now()\<close> is an argument of the method that reads it, one argument per read.
  \<^item> A task description is a JavaScript string, a sequence of UTF-16 code units
    (\<open>16 word list\<close>); route labels and state keys are \<open>string\<close>.
  \<^item> A \<^verbatim>\<open>Map\<close> is an association list in insertion order, each key held once;
    \<^verbatim>\<open>get\<close> is \<open>map_of\<close>, \<^verbatim>\<open>set\<close> is \<open>AList.update\<close> (replace in place, or append), and
    \<^verbatim>\<open>delete\<close> is \<open>AList.delete\<close>.
  \<^item> \<^verbatim>\<open>Math.random()\<close> reads the next element of a sequence \<open>rnd :: nat \<Rightarrow> real\<close>
    at a position that the caller threads through.
\<close>

type_synonym js_string = "16 word list"

definition utf16 :: "string \<Rightarrow> js_string" where
  "utf16 s = map of_char s"

section \<open>JavaScript numbers\<close>

datatype jsnum = Num real | PosInf | NegInf | NaN

text \<open>The sign of a number, and the infinity of a given sign (\<^verbatim>\<open>NaN\<close> for no sign).\<close>

definition signOf :: "jsnum \<Rightarrow> real" where
  "signOf x = (case x of Num r \<Rightarrow> sgn r | PosInf \<Rightarrow> 1 | NegInf \<Rightarrow> - 1 | NaN \<Rightarrow> 0)"

definition infinity :: "real \<Rightarrow> jsnum" where
  "infinity s = (if s = 0 then NaN else if 0 < s then PosInf else NegInf)"

text \<open>
  The operators \<^verbatim>\<open>+\<close>, \<^verbatim>\<open>-\<close>, \<^verbatim>\<open>*\<close>, \<^verbatim>\<open>/\<close>, \<^verbatim>\<open><\<close> and \<^verbatim>\<open><=\<close> and \<^verbatim>\<open>Math.abs\<close>. Every
  comparison with \<^verbatim>\<open>NaN\<close> is false. A finite quotient by zero is the infinity of the
  sign of the dividend.
\<close>

instantiation jsnum :: "{plus, uminus, minus, times, inverse, abs, ord}"
begin

fun uminus_jsnum :: "jsnum \<Rightarrow> jsnum" where
  "uminus_jsnum (Num a) = Num (- a)"
| "uminus_jsnum PosInf = NegInf"
| "uminus_jsnum NegInf = PosInf"
| "uminus_jsnum NaN = NaN"

fun plus_jsnum :: "jsnum \<Rightarrow> jsnum \<Rightarrow> jsnum" where
  "plus_jsnum (Num a) (Num b) = Num (a + b)"
| "plus_jsnum NaN y = NaN"
| "plus_jsnum x NaN = NaN"
| "plus_jsnum PosInf NegInf = NaN"
| "plus_jsnum NegInf PosInf = NaN"
| "plus_jsnum PosInf y = PosInf"
| "plus_jsnum x PosInf = PosInf"
| "plus_jsnum NegInf y = NegInf"
| "plus_jsnum x NegInf = NegInf"

definition minus_jsnum :: "jsnum \<Rightarrow> jsnum \<Rightarrow> jsnum" where
  "minus_jsnum x y = x + (- y)"

fun times_jsnum :: "jsnum \<Rightarrow> jsnum \<Rightarrow> jsnum" where
  "times_jsnum (Num a) (Num b) = Num (a * b)"
| "times_jsnum NaN y = NaN"
| "times_jsnum x NaN = NaN"
| "times_jsnum x y = infinity (signOf x * signOf y)"

fun divide_jsnum :: "jsnum \<Rightarrow> jsnum \<Rightarrow> jsnum" where
  "divide_jsnum (Num a) (Num b) = (if b = 0 then infinity a else Num (a / b))"
| "divide_jsnum NaN y = NaN"
| "divide_jsnum x NaN = NaN"
| "divide_jsnum (Num a) y = Num 0"
| "divide_jsnum x (Num b) = infinity (signOf x * (if b < 0 then - 1 else 1))"
| "divide_jsnum x y = NaN"

definition inverse_jsnum :: "jsnum \<Rightarrow> jsnum" where
  "inverse_jsnum x = divide (Num 1) x"

fun abs_jsnum :: "jsnum \<Rightarrow> jsnum" where
  "abs_jsnum (Num a) = Num \<bar>a\<bar>"
| "abs_jsnum NaN = NaN"
| "abs_jsnum x = PosInf"

fun less_jsnum :: "jsnum \<Rightarrow> jsnum \<Rightarrow> bool" where
  "less_jsnum (Num a) (Num b) = (a < b)"
| "less_jsnum NaN y = False"
| "less_jsnum x NaN = False"
| "less_jsnum x NegInf = False"
| "less_jsnum PosInf y = False"
| "less_jsnum NegInf y = True"
| "less_jsnum x PosInf = True"

definition less_eq_jsnum :: "jsnum \<Rightarrow> jsnum \<Rightarrow> bool" where
  "less_eq_jsnum x y = (x < y \<or> (x = y \<and> x \<noteq> NaN))"

instance ..

end

text \<open>\<^verbatim>\<open>Math.exp\<close>, and \<^verbatim>\<open>Math.max\<close> of two numbers and of a spread array.\<close>

fun Math_exp :: "jsnum \<Rightarrow> jsnum" where
  "Math_exp (Num a) = Num (exp a)"
| "Math_exp PosInf = PosInf"
| "Math_exp NegInf = Num 0"
| "Math_exp NaN = NaN"

definition Math_max2 :: "jsnum \<Rightarrow> jsnum \<Rightarrow> jsnum" where
  "Math_max2 x y = (if x = NaN \<or> y = NaN then NaN else if x < y then y else x)"

definition Math_max :: "jsnum list \<Rightarrow> jsnum" where
  "Math_max xs = foldl Math_max2 NegInf xs"

text \<open>
  Reading \<^verbatim>\<open>xs[i]\<close>: \<open>None\<close> is JavaScript's \<^verbatim>\<open>undefined\<close>, which an arithmetic operator
  converts to \<^verbatim>\<open>NaN\<close>.
\<close>

definition rd :: "'a list \<Rightarrow> nat \<Rightarrow> 'a option" where
  "rd xs i = (if i < length xs then Some (xs ! i) else None)"

definition toNumber :: "jsnum option \<Rightarrow> jsnum" where
  "toNumber v = (case v of None \<Rightarrow> NaN | Some x \<Rightarrow> x)"

subsection \<open>Rounding to single precision\<close>

text \<open>
  A store into a \<^verbatim>\<open>Float32Array\<close> rounds to the nearest binary32 value, ties to the
  even significand. The values of one binade \<open>2\<^sup>e \<le> |r| < 2\<^sup>e\<^sup>+\<^sup>1\<close> are the multiples
  of \<open>2\<^sup>e\<^sup>-\<^sup>2\<^sup>3\<close>, with \<open>e\<close> no less than \<open>-126\<close> (below that the subnormal values are
  the multiples of \<open>2\<^sup>-\<^sup>1\<^sup>4\<^sup>9\<close>). A result of magnitude \<open>2\<^sup>1\<^sup>2\<^sup>8\<close> is an overflow.
\<close>

definition rne :: "real \<Rightarrow> int" where
  "rne x = (let f = \<lfloor>x\<rfloor>; d = x - of_int f
            in if d < 1 / 2 then f else if 1 / 2 < d then f + 1 else if even f then f else f + 1)"

definition binade :: "real \<Rightarrow> int" where
  "binade r = max \<lfloor>log 2 \<bar>r\<bar>\<rfloor> (- 126)"

definition ulp :: "real \<Rightarrow> real" where
  "ulp r = 2 powr real_of_int (binade r - 23)"

definition fround :: "jsnum \<Rightarrow> jsnum" where
  "fround x =
     (case x of
        Num r \<Rightarrow>
          (if r = 0 then Num 0
           else let y = of_int (rne (r / ulp r)) * ulp r
                in if 2 ^ 128 \<le> \<bar>y\<bar> then (if 0 < r then PosInf else NegInf) else Num y)
      | _ \<Rightarrow> x)"

text \<open>\<^verbatim>\<open>new Float32Array(array)\<close> and \<^verbatim>\<open>new Float32Array(n)\<close>.\<close>

definition float32Array :: "jsnum list \<Rightarrow> jsnum list" where
  "float32Array xs = map fround xs"

definition zeros :: "nat \<Rightarrow> jsnum list" where
  "zeros n = replicate n (Num 0)"


section \<open>The Q-learning router: data\<close>

datatype decayType = Linear | Exponential | Cosine

record QLearningRouterConfig =
  learningRate :: real
  gamma :: real
  explorationInitial :: real
  explorationFinal :: real
  explorationDecay :: real
  explorationDecayType :: decayType
  maxStates :: nat
  numActions :: nat
  replayBufferSize :: nat
  replayBatchSize :: nat
  enableReplay :: bool
  cacheSize :: nat
  cacheTTL :: int
  modelPath :: string
  autoSaveInterval :: nat
  stateSpaceDim :: nat

record RouteDecision =
  d_route :: string
  d_confidence :: jsnum
  d_qValues :: "jsnum list"
  d_explored :: bool
  d_alternatives :: "(string \<times> jsnum option) list"

text \<open>\<^verbatim>\<open>qValues\<close> is a \<^verbatim>\<open>Float32Array\<close>; the optional \<^verbatim>\<open>eligibility\<close> is never set.\<close>

record QEntry =
  qValues :: "jsnum list"
  visits :: nat
  lastUpdate :: int

record Experience =
  e_stateKey :: string
  e_actionIdx :: nat
  e_reward :: jsnum
  e_nextStateKey :: "string option"
  e_timestamp :: int
  e_priority :: jsnum

record CacheEntry =
  decision :: RouteDecision
  timestamp :: int
  hits :: nat

text \<open>One entry of the object that \<^verbatim>\<open>export()\<close> returns and \<^verbatim>\<open>import()\<close> reads.\<close>

record PersistedEntry =
  p_qValues :: "jsnum list"
  p_visits :: nat

text \<open>
  The private fields of the class. \<^verbatim>\<open>ruvectorEngine\<close> (the handle of the optional
  native module) is left out: no method embedded here reads it.
\<close>

record QLearningRouter =
  config :: QLearningRouterConfig
  qTable :: "(string \<times> QEntry) list"
  epsilon :: real
  stepCount :: nat
  updateCount :: nat
  avgTDError :: jsnum
  useNative :: bool
  replayBuffer :: "Experience list"
  replayBufferIdx :: nat
  totalExperiences :: nat
  routeCache :: "(string \<times> CacheEntry) list"
  cacheOrder :: "string list"
  cacheHits :: nat
  cacheMisses :: nat
  featureHashCache :: "(string \<times> jsnum list) list"

definition DEFAULT_CONFIG :: QLearningRouterConfig where
  "DEFAULT_CONFIG = \<lparr>
     learningRate = 1 / 10,
     gamma = 99 / 100,
     explorationInitial = 1,
     explorationFinal = 1 / 100,
     explorationDecay = 10000,
     explorationDecayType = Exponential,
     maxStates = 10000,
     numActions = 8,
     replayBufferSize = 1000,
     replayBatchSize = 32,
     enableReplay = True,
     cacheSize = 256,
     cacheTTL = 300000,
     modelPath = ''.swarm/q-learning-model.json'',
     autoSaveInterval = 100,
     stateSpaceDim = 64 \<rparr>"

definition ROUTE_NAMES :: "string list" where
  "ROUTE_NAMES = [''coder'', ''tester'', ''reviewer'', ''architect'',
                  ''researcher'', ''optimizer'', ''debugger'', ''documenter'']"

text \<open>The constructor, given the merged configuration \<^verbatim>\<open>{ ...DEFAULT_CONFIG, ...config }\<close>.\<close>

definition newRouter :: "QLearningRouterConfig \<Rightarrow> QLearningRouter" where
  "newRouter c = \<lparr>
     config = c,
     qTable = [],
     epsilon = explorationInitial c,
     stepCount = 0,
     updateCount = 0,
     avgTDError = Num 0,
     useNative = False,
     replayBuffer = [],
     replayBufferIdx = 0,
     totalExperiences = 0,
     routeCache = [],
     cacheOrder = [],
     cacheHits = 0,
     cacheMisses = 0,
     featureHashCache = [] \<rparr>"

section \<open>The Q-learning router: private methods\<close>

subsection \<open>hashState\<close>

text \<open>
  \<^verbatim>\<open>hash = ((hash << 5) - hash) + char; hash = hash & hash\<close> keeps a signed 32-bit
  value: the shift and the final \<^verbatim>\<open>&\<close> both reduce modulo \<open>2 ^ 32\<close>, and the
  intermediate sum is exact in a double. The key is \<^verbatim>\<open>`state_${hash}`\<close>, the decimal
  numeral of the signed value.
\<close>

definition digit_char :: "nat \<Rightarrow> char" where
  "digit_char d = ''0123456789'' ! d"

fun show_nat :: "nat \<Rightarrow> string" where
  "show_nat n = (if n < 10 then [digit_char n] else show_nat (n div 10) @ [digit_char (n mod 10)])"

declare show_nat.simps [simp del]

definition show_int :: "int \<Rightarrow> string" where
  "show_int i = (if i < 0 then CHR ''-'' # show_nat (nat (- i)) else show_nat (nat i))"

definition hashStep :: "16 word \<Rightarrow> 32 word \<Rightarrow> 32 word" where
  "hashStep c hash = (push_bit 5 hash - hash) + ucast c"

definition hashState :: "js_string \<Rightarrow> string" where
  "hashState context = ''state_'' @ show_int (sint (fold hashStep context 0))"

subsection \<open>getQValues and getOrCreateEntry\<close>

text \<open>
  \<^verbatim>\<open>getQValues\<close> returns a fresh array: \<^verbatim>\<open>numActions\<close> zeros for a key without entry, a
  copy of the row otherwise. \<^verbatim>\<open>getOrCreateEntry\<close> reads the clock only when it creates
  the entry (\<open>created\<close>).
\<close>

definition getQValues :: "QLearningRouter \<Rightarrow> string \<Rightarrow> jsnum list" where
  "getQValues s stateKey =
     (case map_of (qTable s) stateKey of
        None \<Rightarrow> zeros (numActions (config s))
      | Some entry \<Rightarrow> qValues entry)"

definition getOrCreateEntry :: "QLearningRouter \<Rightarrow> string \<Rightarrow> int \<Rightarrow> QEntry \<times> QLearningRouter" where
  "getOrCreateEntry s stateKey created =
     (case map_of (qTable s) stateKey of
        Some entry \<Rightarrow> (entry, s)
      | None \<Rightarrow>
          (let entry = \<lparr> qValues = zeros (numActions (config s)), visits = 0, lastUpdate = created \<rparr>
           in (entry, s\<lparr> qTable := AList.update stateKey entry (qTable s) \<rparr>)))"

subsection \<open>argmax\<close>

text \<open>
  The loop of \<^verbatim>\<open>argmax\<close> from index \<open>i\<close> on, over the values not yet visited. On the
  empty array the source reads \<^verbatim>\<open>values[0]\<close> (undefined), skips the loop and returns 0.
  A \<^verbatim>\<open>NaN\<close> is never greater than the running maximum, and nothing is greater than a
  running maximum that is \<^verbatim>\<open>NaN\<close>.
\<close>

fun argmax_from :: "jsnum list \<Rightarrow> nat \<Rightarrow> nat \<Rightarrow> jsnum \<Rightarrow> nat" where
  "argmax_from [] i maxIdx maxVal = maxIdx"
| "argmax_from (v # vs) i maxIdx maxVal =
     (if v > maxVal then argmax_from vs (Suc i) i v else argmax_from vs (Suc i) maxIdx maxVal)"

definition argmax :: "jsnum list \<Rightarrow> nat" where
  "argmax values = (case values of [] \<Rightarrow> 0 | v # vs \<Rightarrow> argmax_from vs 1 0 v)"

subsection \<open>softmaxConfidence\<close>

text \<open>
  \<^verbatim>\<open>expValues[actionIdx]\<close> is undefined for an index beyond the row; the quotient is
  then \<^verbatim>\<open>NaN\<close>.
\<close>

definition softmaxConfidence :: "jsnum list \<Rightarrow> nat \<Rightarrow> jsnum" where
  "softmaxConfidence qvs actionIdx =
     (let maxQ = Math_max qvs;
          expValues = map (\<lambda>q. Math_exp (q - maxQ)) qvs;
          sumExp = foldl (\<lambda>a b. a + b) (Num 0) expValues
      in toNumber (rd expValues actionIdx) / sumExp)"

subsection \<open>The alternatives of a decision\<close>

text \<open>
  \<^verbatim>\<open>Array.prototype.sort\<close> is stable. With the comparator \<^verbatim>\<open>b.score - a.score\<close> an
  element \<open>a\<close> stays before \<open>b\<close> unless the difference is positive; a difference
  that is \<^verbatim>\<open>NaN\<close> counts as zero. The model is the stable insertion sort for that
  comparator. When a score is undefined or \<^verbatim>\<open>NaN\<close> the comparator is not an order
  and ECMAScript leaves the result to the implementation; the model then fixes one
  result.
\<close>

definition score_before :: "string \<times> jsnum option \<Rightarrow> string \<times> jsnum option \<Rightarrow> bool" where
  "score_before a b = (\<not> Num 0 < toNumber (snd b) - toNumber (snd a))"

fun insort_by :: "('a \<Rightarrow> 'a \<Rightarrow> bool) \<Rightarrow> 'a \<Rightarrow> 'a list \<Rightarrow> 'a list" where
  "insort_by le x [] = [x]"
| "insort_by le x (y # ys) = (if le x y then x # y # ys else y # insort_by le x ys)"

definition sort_by :: "('a \<Rightarrow> 'a \<Rightarrow> bool) \<Rightarrow> 'a list \<Rightarrow> 'a list" where
  "sort_by le xs = foldr (insort_by le) xs []"

definition alternativesOf :: "jsnum list \<Rightarrow> (string \<times> jsnum option) list" where
  "alternativesOf qvs =
     take 3 (drop 1 (sort_by score_before
       (map (\<lambda>(route, idx). (route, rd qvs idx)) (zip ROUTE_NAMES [0..<length ROUTE_NAMES]))))"

subsection \<open>pruneQTable\<close>

text \<open>
  \<open>sort_key\<close> is a stable sort, as \<^verbatim>\<open>Array.prototype.sort\<close> is. For a count
  \<open>maxStates\<close>, \<^verbatim>\<open>Math.floor(maxStates * 0.8)\<close> is \<open>maxStates * 4 div 5\<close>: the double
  nearest to 0.8 lies above it by less than \<open>10\<^sup>-\<^sup>1\<^sup>6\<close>, so the product never falls
  below an integer it should reach. A negative \<^verbatim>\<open>toRemove\<close> runs the loop zero times,
  which truncating subtraction gives as well. \<^verbatim>\<open>entries[i]\<close> is in range for every
  \<open>i < toRemove\<close>.
\<close>

definition evictOldest :: "(string \<times> QEntry) list \<Rightarrow> nat \<Rightarrow> (string \<times> QEntry) list" where
  "evictOldest table toRemove =
     (let entries = sort_key (\<lambda>e. lastUpdate (snd e)) table
      in fold (\<lambda>e t. AList.delete (fst e) t) (take toRemove entries) table)"

definition pruneQTable :: "QLearningRouter \<Rightarrow> QLearningRouter" where
  "pruneQTable s =
     s\<lparr> qTable := evictOldest (qTable s) (length (qTable s) - maxStates (config s) * 4 div 5) \<rparr>"

section \<open>The Q-learning router: public methods\<close>

subsection \<open>route\<close>

text \<open>
  \<^verbatim>\<open>explore && Math.random() < this.epsilon\<close> draws a number only when \<^verbatim>\<open>explore\<close>
  holds, and a second one only when the call explores. The result carries the
  decision, the router as the call leaves it and the position in the random
  sequence after the call. \<^verbatim>\<open>ROUTE_NAMES[actionIdx] || 'coder'\<close> falls back only when
  the index is out of range (every label is a non-empty string).
\<close>

definition route ::
  "QLearningRouter \<Rightarrow> js_string \<Rightarrow> bool \<Rightarrow> (nat \<Rightarrow> real) \<Rightarrow> nat
     \<Rightarrow> RouteDecision \<times> QLearningRouter \<times> nat" where
  "route s taskContext explore rnd pos =
     (let stateKey = hashState taskContext;
          shouldExplore = (explore \<and> rnd pos < epsilon s);
          pos1 = (if explore then Suc pos else pos);
          actionIdx = (if shouldExplore
                       then nat \<lfloor>rnd pos1 * real (numActions (config s))\<rfloor>
                       else argmax (getQValues s stateKey));
          pos2 = (if shouldExplore then Suc pos1 else pos1);
          qvs = getQValues s stateKey;
          confidence = softmaxConfidence qvs actionIdx;
          alternatives = alternativesOf qvs
      in (\<lparr> d_route = (case rd ROUTE_NAMES actionIdx of Some name \<Rightarrow> name | None \<Rightarrow> ''coder''),
            d_confidence = confidence,
            d_qValues = qvs,
            d_explored = shouldExplore,
            d_alternatives = alternatives \<rparr>,
          s, pos2))"

subsection \<open>update\<close>

text \<open>\<^verbatim>\<open>ROUTE_NAMES.indexOf(action)\<close>: the first index that holds the label, \<open>None\<close> for \<open>-1\<close>.\<close>

fun indexOf :: "'a list \<Rightarrow> 'a \<Rightarrow> nat option" where
  "indexOf [] a = None"
| "indexOf (x # xs) a = (if x = a then Some 0 else map_option Suc (indexOf xs a))"

text \<open>
  \<^verbatim>\<open>if (nextContext)\<close> is false for an absent argument and for the empty string.
  \<^verbatim>\<open>Math.max(...nextQValues)\<close> is \<open>-Infinity\<close> for an empty row.
\<close>

definition targetQ :: "QLearningRouter \<Rightarrow> jsnum \<Rightarrow> js_string option \<Rightarrow> jsnum" where
  "targetQ s reward nextContext =
     (case nextContext of
        None \<Rightarrow> reward
      | Some next \<Rightarrow>
          (if next = [] then reward
           else reward + Num (gamma (config s)) * Math_max (getQValues s (hashState next))))"

text \<open>
  \<^verbatim>\<open>Math.max(final, initial - stepCount / explorationDecay)\<close>, with the step count
  already incremented (so it is positive): for \<^verbatim>\<open>explorationDecay = 0\<close> the quotient is
  \<open>Infinity\<close>, the difference \<open>-Infinity\<close> and the maximum \<^verbatim>\<open>explorationFinal\<close>. The
  three operands are finite, and so is the result.
\<close>

definition decayedEpsilon :: "QLearningRouterConfig \<Rightarrow> nat \<Rightarrow> real" where
  "decayedEpsilon c step =
     (if explorationDecay c = 0 then explorationFinal c
      else max (explorationFinal c) (explorationInitial c - real step / explorationDecay c))"

text \<open>
  The statements of \<^verbatim>\<open>update\<close> after the TD error is known, block by block.

  ``Update Q-value'': \<^verbatim>\<open>entry.qValues[actionIdx] += learningRate * tdError\<close> reads the
  element again (undefined beyond the row) and stores the rounded sum; the store is
  ignored when the index is beyond the row, as \<open>list_update\<close> does. The entry object
  is shared with the table, so its mutation is a \<^verbatim>\<open>set\<close> at its key. \<open>now\<close> is the
  reading of \<^verbatim>\<open>entry.lastUpdate = Date.now()\<close>.
\<close>

definition writeEntry ::
  "QLearningRouter \<Rightarrow> string \<Rightarrow> QEntry \<Rightarrow> nat \<Rightarrow> jsnum \<Rightarrow> int \<Rightarrow> QLearningRouter" where
  "writeEntry s stateKey entry actionIdx tdError now =
     s\<lparr> qTable :=
          AList.update stateKey
            (entry\<lparr> qValues := (qValues entry)[actionIdx :=
                       fround (toNumber (rd (qValues entry) actionIdx)
                                 + Num (learningRate (config s)) * tdError)],
                    visits := visits entry + 1,
                    lastUpdate := now \<rparr>)
            (qTable s) \<rparr>"

text \<open>``Decay exploration''.\<close>

definition decayExploration :: "QLearningRouter \<Rightarrow> QLearningRouter" where
  "decayExploration s =
     s\<lparr> stepCount := stepCount s + 1,
        epsilon := decayedEpsilon (config s) (stepCount s + 1) \<rparr>"

text \<open>``Prune Q-table if needed''.\<close>

definition pruneIfNeeded :: "QLearningRouter \<Rightarrow> QLearningRouter" where
  "pruneIfNeeded s = (if length (qTable s) > maxStates (config s) then pruneQTable s else s)"

text \<open>The running mean of the absolute TD error, after \<^verbatim>\<open>this.updateCount++\<close>.\<close>

definition recordTDError :: "QLearningRouter \<Rightarrow> jsnum \<Rightarrow> QLearningRouter" where
  "recordTDError s tdError =
     s\<lparr> updateCount := updateCount s + 1,
        avgTDError := (avgTDError s * Num (real (updateCount s + 1) - 1) + \<bar>tdError\<bar>)
                        / Num (real (updateCount s + 1)) \<rparr>"

text \<open>
  The result of \<^verbatim>\<open>update\<close> is the returned TD error and the router after the call.
  \<open>created\<close> is the clock reading of \<^verbatim>\<open>getOrCreateEntry\<close> and \<open>now\<close> that of the
  assignment to \<^verbatim>\<open>lastUpdate\<close>. When \<^verbatim>\<open>entry.qValues[actionIdx]\<close> is undefined the TD
  error is \<^verbatim>\<open>NaN\<close> and the call goes on.
\<close>

definition update ::
  "QLearningRouter \<Rightarrow> js_string \<Rightarrow> string \<Rightarrow> jsnum \<Rightarrow> js_string option \<Rightarrow> int \<Rightarrow> int
     \<Rightarrow> jsnum \<times> QLearningRouter" where
  "update s taskContext action reward nextContext created now =
     (let stateKey = hashState taskContext in
      case indexOf ROUTE_NAMES action of
        None \<Rightarrow> (Num 0, s)
      | Some actionIdx \<Rightarrow>
          (case getOrCreateEntry s stateKey created of
             (entry, s1) \<Rightarrow>
               (let currentQ = toNumber (rd (qValues entry) actionIdx);
                    tdError = targetQ s1 reward nextContext - currentQ
                in (tdError,
                    recordTDError
                      (pruneIfNeeded
                         (decayExploration (writeEntry s1 stateKey entry actionIdx tdError now)))
                      tdError))))"

subsection \<open>initialize and reset\<close>

text \<open>
  \<^verbatim>\<open>initialize\<close> records whether the optional native module gave an engine
  (\<open>native\<close>); the engine itself is not kept.
\<close>

definition initialize :: "QLearningRouter \<Rightarrow> bool \<Rightarrow> QLearningRouter" where
  "initialize s native = s\<lparr> useNative := native \<rparr>"

definition reset :: "QLearningRouter \<Rightarrow> QLearningRouter" where
  "reset s =
     s\<lparr> qTable := [],
        epsilon := explorationInitial (config s),
        stepCount := 0,
        updateCount := 0,
        avgTDError := Num 0 \<rparr>"

subsection \<open>export and import\<close>

text \<open>
  The exported object is given by its entries in the order of \<^verbatim>\<open>Object.entries\<close>; a
  key of the form \<^verbatim>\<open>state_...\<close> is no array index, so that order is insertion order.
  Assigning \<^verbatim>\<open>result[key]\<close> is \<open>AList.update\<close>. \<^verbatim>\<open>import\<close> takes the entries of its
  argument in that same representation. It reads the clock once per entry:
  \<open>clock i\<close> is the reading for the entry at position \<open>i\<close>. The values of an entry
  go through \<^verbatim>\<open>new Float32Array(entry.qValues)\<close>.
\<close>

definition export :: "QLearningRouter \<Rightarrow> (string \<times> PersistedEntry) list" where
  "export s =
     fold (\<lambda>(key, entry) result.
             AList.update key \<lparr> p_qValues = qValues entry, p_visits = visits entry \<rparr> result)
          (qTable s) []"

definition import ::
  "QLearningRouter \<Rightarrow> (string \<times> PersistedEntry) list \<Rightarrow> (nat \<Rightarrow> int) \<Rightarrow> QLearningRouter" where
  "import s data clock =
     s\<lparr> qTable :=
          fold (\<lambda>(i, key, entry) table.
                  AList.update key
                    \<lparr> qValues = float32Array (p_qValues entry), visits = p_visits entry,
                      lastUpdate = clock i \<rparr> table)
               (enumerate 0 data) [] \<rparr>"


section \<open>Clients and reference formulas\<close>

text \<open>A caller that issues route calls one after the other, threading the router along.\<close>

fun route_many ::
  "QLearningRouter \<Rightarrow> (js_string \<times> bool) list \<Rightarrow> (nat \<Rightarrow> real) \<Rightarrow> nat \<Rightarrow> QLearningRouter \<times> nat" where
  "route_many s [] rnd pos = (s, pos)"
| "route_many s ((taskContext, explore) # calls) rnd pos =
     (case route s taskContext explore rnd pos of (d, s', pos') \<Rightarrow> route_many s' calls rnd pos')"

text \<open>
  The calls that a client can make on a router, with the arguments and the clock
  readings of each, and a client that makes a list of them in turn. \<^verbatim>\<open>export\<close> and
  \<^verbatim>\<open>getStats\<close> only read the router.
\<close>

datatype call =
    Initialize bool
  | Route js_string bool
  | Update js_string string jsnum "js_string option" int int
  | Reset
  | Import "(string \<times> PersistedEntry) list" "nat \<Rightarrow> int"
  | Export
  | GetStats

fun perform :: "(nat \<Rightarrow> real) \<Rightarrow> call \<Rightarrow> QLearningRouter \<times> nat \<Rightarrow> QLearningRouter \<times> nat" where
  "perform rnd (Initialize native) (s, pos) = (initialize s native, pos)"
| "perform rnd (Route taskContext explore) (s, pos) = snd (route s taskContext explore rnd pos)"
| "perform rnd (Update taskContext action reward nextContext created now) (s, pos) =
     (snd (update s taskContext action reward nextContext created now), pos)"
| "perform rnd Reset (s, pos) = (reset s, pos)"
| "perform rnd (Import data clock) (s, pos) = (import s data clock, pos)"
| "perform rnd Export (s, pos) = (s, pos)"
| "perform rnd GetStats (s, pos) = (s, pos)"

definition run :: "(nat \<Rightarrow> real) \<Rightarrow> call list \<Rightarrow> QLearningRouter \<Rightarrow> QLearningRouter" where
  "run rnd calls s = fst (fold (perform rnd) calls (s, 0))"



text \<open>
  The decay laws as the specification words them (section 4.2.1), for comparison with
  \<open>decayedEpsilon\<close>; \<open>step\<close> is the number of updates performed so far.
\<close>

definition spec_epsilon :: "QLearningRouterConfig \<Rightarrow> nat \<Rightarrow> real" where
  "spec_epsilon c step =
     (case explorationDecayType c of
        Linear \<Rightarrow> max (explorationFinal c) (explorationInitial c - real step / explorationDecay c)
      | Exponential \<Rightarrow>
          explorationFinal c
            + (explorationInitial c - explorationFinal c) * exp (- (real step / explorationDecay c))
      | Cosine \<Rightarrow>
          explorationFinal c
            + (1 / 2) * (explorationInitial c - explorationFinal c)
                * (1 + cos (pi * min 1 (real step / explorationDecay c))))"

section \<open>Routers used in the examples\<close>

text \<open>Random sources and clocks.\<close>

definition no_random :: "nat \<Rightarrow> real" where
  "no_random n = 0"


definition frozenClock :: "nat \<Rightarrow> int" where
  "frozenClock i = 0"

definition tickingClock :: "nat \<Rightarrow> int" where
  "tickingClock i = int i"

definition sampleTask :: js_string where
  "sampleTask = utf16 ''fix login bug''"

text \<open>A router that imported one row for the sample task.\<close>

definition sampleData :: "(string \<times> PersistedEntry) list" where
  "sampleData =
     [(hashState sampleTask,
       \<lparr> p_qValues = [Num 0, Num 3, Num 3, Num 1, Num 0, Num 0, Num 0, Num 0], p_visits = 2 \<rparr>)]"

definition sampleRouter :: QLearningRouter where
  "sampleRouter = import (newRouter DEFAULT_CONFIG) sampleData frozenClock"

text \<open>A router that imported a row of nine values, one more than there are labels.\<close>

definition nineData :: "(string \<times> PersistedEntry) list" where
  "nineData =
     [(hashState sampleTask,
       \<lparr> p_qValues = [Num 0, Num 0, Num 0, Num 0, Num 0, Num 0, Num 0, Num 0, Num 5], p_visits = 1 \<rparr>)]"

definition nineRouter :: QLearningRouter where
  "nineRouter = import (newRouter DEFAULT_CONFIG) nineData frozenClock"

definition shortEntry :: PersistedEntry where
  "shortEntry = \<lparr> p_qValues = [Num 1, Num 2, Num 3], p_visits = 1 \<rparr>"

text \<open>
  Routers with a capacity of one and of two states, filled by an import.
  \<open>tinyRouterAfter\<close> is the state that one rewarded update for the task \<^verbatim>\<open>a\<close> at time 5
  leaves \<open>tinyRouter\<close> in.
\<close>

definition tinyRouter :: QLearningRouter where
  "tinyRouter =
     import (newRouter (DEFAULT_CONFIG\<lparr> maxStates := 1 \<rparr>))
       [(hashState [],
         \<lparr> p_qValues = [Num 1, Num 0, Num 0, Num 0, Num 0, Num 0, Num 0, Num 0], p_visits = 1 \<rparr>)]
       frozenClock"

definition tinyRouterAfter :: QLearningRouter where
  "tinyRouterAfter = tinyRouter\<lparr>
     qTable := [], epsilon := 9999 / 10000, stepCount := 1, updateCount := 1, avgTDError := Num 1 \<rparr>"

definition smallRouter :: QLearningRouter where
  "smallRouter =
     import (newRouter (DEFAULT_CONFIG\<lparr> maxStates := 2 \<rparr>))
       [(hashState [],
         \<lparr> p_qValues = [Num 1, Num 0, Num 0, Num 0, Num 0, Num 0, Num 0, Num 0], p_visits = 1 \<rparr>),
        (hashState (utf16 ''a''),
         \<lparr> p_qValues = [Num 0, Num 1, Num 0, Num 0, Num 0, Num 0, Num 0, Num 0], p_visits = 1 \<rparr>)]
       tickingClock"

text \<open>
  A router whose exploration rate reaches its floor after one update, the router
  after one update that rewards \<^verbatim>\<open>tester\<close> for the sample task, and a fresh router of
  the same configuration that imported what the trained one exports.
\<close>

definition quickDecayConfig :: QLearningRouterConfig where
  "quickDecayConfig = DEFAULT_CONFIG\<lparr> explorationDecay := 1 \<rparr>"

definition trainedRouter :: QLearningRouter where
  "trainedRouter = snd (update (newRouter quickDecayConfig) sampleTask ''tester'' (Num 1) None 0 0)"

definition restoredRouter :: QLearningRouter where
  "restoredRouter = import (newRouter quickDecayConfig) (export trainedRouter) frozenClock"


section \<open>Flash attention: data\<close>

text \<open>
  The input vectors are \<^verbatim>\<open>Float32Array\<close>s. A kernel returns its output rows unless it
  throws: \<^verbatim>\<open>validateInputs\<close> throws four errors, and indexing a value vector that is
  \<^verbatim>\<open>undefined\<close> throws a \<^verbatim>\<open>TypeError\<close>. Reading a value vector beyond its end does
  not throw: the element is \<^verbatim>\<open>undefined\<close> and the sum it enters is \<^verbatim>\<open>NaN\<close>.

  Beside its output a kernel returns a trace, which is no part of the program: the
  list, in the order of the run, of the positions \<open>(j, d)\<close> at which a read of
  \<^verbatim>\<open>values[j][d]\<close> was beyond the end of \<^verbatim>\<open>values[j]\<close>.
\<close>

datatype attention_error =
    EmptyInput
  | CountMismatch
  | QueryKeyDimMismatch
  | KeyValueDimMismatch
  | TypeError

type_synonym reads = "(nat \<times> nat) list"

record FlashAttentionConfig =
  blockSize :: nat
  dimensions :: nat
  temperature :: real
  useStableMode :: bool

text \<open>The constructor's defaults.\<close>

definition defaultAttentionConfig :: FlashAttentionConfig where
  "defaultAttentionConfig = \<lparr> blockSize = 64, dimensions = 384, temperature = 1, useStableMode = True \<rparr>"

section \<open>Flash attention: private methods\<close>

subsection \<open>validateInputs\<close>

text \<open>
  The checks in the order of the source. Only \<^verbatim>\<open>queries[0]\<close>, \<^verbatim>\<open>keys[0]\<close> and
  \<^verbatim>\<open>values[0]\<close> are measured; each exists once the arrays are known to be non-empty.
\<close>

definition validateInputs ::
  "jsnum list list \<Rightarrow> jsnum list list \<Rightarrow> jsnum list list \<Rightarrow> attention_error + unit" where
  "validateInputs queries keys values =
     (case (queries, keys, values) of
        (q0 # _, k0 # _, v0 # _) \<Rightarrow>
          (if length keys \<noteq> length values then Inl CountMismatch
           else if length q0 \<noteq> length k0 then Inl QueryKeyDimMismatch
           else if length k0 \<noteq> length v0 then Inl KeyValueDimMismatch
           else Inr ())
      | _ \<Rightarrow> Inl EmptyInput)"

subsection \<open>dotProduct\<close>

text \<open>
  The loop unrolled four times, from index \<open>i\<close> with the running sum (\<open>acc\<close> here); it
  returns the index it stops at and the sum. The condition \<^verbatim>\<open>i <= len - 4\<close> is
  \<open>i + 4 \<le> len\<close> (for \<open>len < 4\<close> the right side is negative). The sum is a double: it
  is not rounded to single precision.
\<close>

function dotUnrolled :: "jsnum list \<Rightarrow> jsnum list \<Rightarrow> nat \<Rightarrow> nat \<Rightarrow> jsnum \<Rightarrow> nat \<times> jsnum" where
  "dotUnrolled a b len i acc =
     (if i + 4 \<le> len then
        dotUnrolled a b len (i + 4)
          (acc + (toNumber (rd a i) * toNumber (rd b i)
                  + toNumber (rd a (i + 1)) * toNumber (rd b (i + 1))
                  + toNumber (rd a (i + 2)) * toNumber (rd b (i + 2))
                  + toNumber (rd a (i + 3)) * toNumber (rd b (i + 3))))
      else (i, acc))"
  by pat_completeness auto
termination
  by (relation "measure (\<lambda>(a, b, len, i, acc). len - i)") auto

declare dotUnrolled.simps [simp del]

text \<open>``Handle remaining elements''.\<close>

function dotRemaining :: "jsnum list \<Rightarrow> jsnum list \<Rightarrow> nat \<Rightarrow> nat \<Rightarrow> jsnum \<Rightarrow> jsnum" where
  "dotRemaining a b len i acc =
     (if i < len then dotRemaining a b len (i + 1) (acc + toNumber (rd a i) * toNumber (rd b i))
      else acc)"
  by pat_completeness auto
termination
  by (relation "measure (\<lambda>(a, b, len, i, acc). len - i)") auto

declare dotRemaining.simps [simp del]

definition dotProduct :: "jsnum list \<Rightarrow> jsnum list \<Rightarrow> jsnum" where
  "dotProduct a b =
     (let len = min (length a) (length b) in
      case dotUnrolled a b len 0 (Num 0) of (i, acc) \<Rightarrow> dotRemaining a b len i acc)"

subsection \<open>softmax\<close>

text \<open>The loop that finds the maximum, from the running maximum \<open>m\<close>.\<close>

fun maxLoop :: "jsnum list \<Rightarrow> jsnum \<Rightarrow> jsnum" where
  "maxLoop [] m = m"
| "maxLoop (s # scores) m = maxLoop scores (if s > m then s else m)"

text \<open>
  \<open>result\<close> is a \<^verbatim>\<open>Float32Array\<close>: the exponentials are rounded when stored, the sum
  adds the stored values from the left, and the quotients are rounded when stored.
\<close>

definition softmax :: "jsnum list \<Rightarrow> jsnum list" where
  "softmax scores =
     (let m = maxLoop scores NegInf;
          result = map (\<lambda>s. fround (Math_exp (s - m))) scores;
          acc = foldl (\<lambda>x r. x + r) (Num 0) result
      in if acc > Num 0 then map (\<lambda>r. fround (r / acc)) result else result)"

subsection \<open>naiveAttention\<close>

text \<open>\<^verbatim>\<open>queries[0]?.length ?? this.config.dimensions\<close>.\<close>

definition dimensionsOf :: "FlashAttentionConfig \<Rightarrow> jsnum list list \<Rightarrow> nat" where
  "dimensionsOf cfg queries = (case queries of [] \<Rightarrow> dimensions cfg | q0 # _ \<Rightarrow> length q0)"

text \<open>
  \<^verbatim>\<open>1.0 / (Math.sqrt(dimensions) * this.config.temperature)\<close>: an infinity when the
  product is zero.
\<close>

definition scaleOf :: "FlashAttentionConfig \<Rightarrow> nat \<Rightarrow> jsnum" where
  "scaleOf cfg d = Num 1 / (Num (sqrt (real d)) * Num (temperature cfg))"

text \<open>
  One row of the score matrix, a \<^verbatim>\<open>Float32Array\<close>:
  \<^verbatim>\<open>scores[i][j] = dotProduct(queries[i], keys[j]) * scale\<close> for the keys in turn.
\<close>

definition scoreRow :: "jsnum list \<Rightarrow> jsnum list list \<Rightarrow> jsnum \<Rightarrow> jsnum list" where
  "scoreRow query keys scale = map (\<lambda>key. fround (dotProduct query key * scale)) keys"

text \<open>
  \<^verbatim>\<open>for (d = 0; d < dimensions; d++) output[i][d] += weight * value[d]\<close>, from index \<open>d\<close>
  with \<open>n\<close> indices to go, where \<open>value\<close> is \<^verbatim>\<open>values[j]\<close>. The loop carries the output
  row and the trace: a read of \<^verbatim>\<open>value[d]\<close> beyond the end of \<open>value\<close> is recorded, and
  the undefined element makes the stored sum \<^verbatim>\<open>NaN\<close>.
\<close>

fun addWeighted ::
  "jsnum \<Rightarrow> jsnum list \<Rightarrow> nat \<Rightarrow> jsnum list \<times> reads \<Rightarrow> nat \<Rightarrow> nat \<Rightarrow> jsnum list \<times> reads" where
  "addWeighted weight value j (out, trace) d 0 = (out, trace)"
| "addWeighted weight value j (out, trace) d (Suc n) =
     addWeighted weight value j
       (out[d := fround (toNumber (rd out d) + weight * toNumber (rd value d))],
        if d < length value then trace else trace @ [(j, d)])
       (Suc d) n"

text \<open>
  The loop over \<open>j\<close> for one query: \<open>weights\<close> are the weights not yet used, \<open>j\<close> the
  index of the next key. \<^verbatim>\<open>values[j]\<close> is indexed only inside the loop over \<open>d\<close>; when
  it is undefined, indexing it throws.
\<close>

fun weightedSum ::
  "jsnum list \<Rightarrow> jsnum list list \<Rightarrow> nat \<Rightarrow> nat \<Rightarrow> jsnum list \<times> reads
     \<Rightarrow> attention_error + (jsnum list \<times> reads)" where
  "weightedSum [] values j dims st = Inr st"
| "weightedSum (weight # weights) values j dims st =
     (if dims = 0 then weightedSum weights values (Suc j) dims st
      else case rd values j of
        None \<Rightarrow> Inl TypeError
      | Some value \<Rightarrow> weightedSum weights values (Suc j) dims (addWeighted weight value j st 0 dims))"

text \<open>
  The three passes of \<^verbatim>\<open>naiveAttention\<close> for one query: scores, softmax, weighted sum.
  The source runs each pass for all queries before the next pass; only the last pass
  can throw, so the result is the same.
\<close>

definition naiveRow ::
  "jsnum list \<Rightarrow> jsnum list list \<Rightarrow> jsnum list list \<Rightarrow> nat \<Rightarrow> jsnum \<Rightarrow> reads
     \<Rightarrow> attention_error + (jsnum list \<times> reads)" where
  "naiveRow query keys values dims scale trace =
     weightedSum (softmax (scoreRow query keys scale)) values 0 dims (zeros dims, trace)"

fun naiveRows ::
  "jsnum list list \<Rightarrow> jsnum list list \<Rightarrow> jsnum list list \<Rightarrow> nat \<Rightarrow> jsnum \<Rightarrow> reads
     \<Rightarrow> attention_error + (jsnum list list \<times> reads)" where
  "naiveRows [] keys values dims scale trace = Inr ([], trace)"
| "naiveRows (query # queries) keys values dims scale trace =
     (case naiveRow query keys values dims scale trace of
        Inl e \<Rightarrow> Inl e
      | Inr (row, trace') \<Rightarrow>
          (case naiveRows queries keys values dims scale trace' of
             Inl e \<Rightarrow> Inl e
           | Inr (rows, trace'') \<Rightarrow> Inr (row # rows, trace'')))"

definition naiveAttention ::
  "FlashAttentionConfig \<Rightarrow> jsnum list list \<Rightarrow> jsnum list list \<Rightarrow> jsnum list list
     \<Rightarrow> attention_error + (jsnum list list \<times> reads)" where
  "naiveAttention cfg queries keys values =
     naiveRows queries keys values (dimensionsOf cfg queries)
       (scaleOf cfg (dimensionsOf cfg queries)) []"


section \<open>Flash attention: the tiled computation\<close>

text \<open>
  The online-softmax state of \<^verbatim>\<open>blockAttention\<close>: one output row (the array
  \<^verbatim>\<open>output\<close>, here \<open>outputRows\<close>), one running maximum and one running sum of
  exponentials per query, each in a \<^verbatim>\<open>Float32Array\<close>.
\<close>

record OnlineState =
  outputRows :: "jsnum list list"
  maxScores :: "jsnum list"
  sumExp :: "jsnum list"

subsection \<open>computeBlockScores\<close>

text \<open>
  The rows are the queries \<open>qStart \<le> i < qEnd\<close>, the columns the keys
  \<open>kStart \<le> j < kEnd\<close>; both ranges lie within the arrays.
\<close>

definition computeBlockScores ::
  "jsnum list list \<Rightarrow> jsnum list list \<Rightarrow> nat \<Rightarrow> nat \<Rightarrow> nat \<Rightarrow> nat \<Rightarrow> jsnum \<Rightarrow> jsnum list list" where
  "computeBlockScores Q K qStart qEnd kStart kEnd scale =
     map (\<lambda>query. scoreRow query (take (kEnd - kStart) (drop kStart K)) scale)
       (take (qEnd - qStart) (drop qStart Q))"

subsection \<open>onlineSoftmaxAccumulate\<close>

text \<open>
  ``Scale existing output by correction factor'':
  \<^verbatim>\<open>for (d = 0; d < dimensions; d++) output[globalQi][d] *= correction\<close>.
\<close>

fun scaleRow :: "jsnum \<Rightarrow> jsnum list \<Rightarrow> nat \<Rightarrow> nat \<Rightarrow> jsnum list" where
  "scaleRow correction out d 0 = out"
| "scaleRow correction out d (Suc n) =
     scaleRow correction (out[d := fround (toNumber (rd out d) * correction)]) (Suc d) n"

text \<open>
  ``Process this block'', for one query: the scores not yet used, the index \<open>k\<close> of
  the next key, the new maximum, the output row with the trace, and the running sum (a
  double). As in the direct computation, \<^verbatim>\<open>V[k]\<close> is indexed only inside the loop over
  \<open>d\<close>.
\<close>

fun blockKeys ::
  "jsnum list \<Rightarrow> jsnum list list \<Rightarrow> nat \<Rightarrow> nat \<Rightarrow> jsnum \<Rightarrow> jsnum list \<times> reads \<Rightarrow> jsnum
     \<Rightarrow> attention_error + ((jsnum list \<times> reads) \<times> jsnum)" where
  "blockKeys [] V k dims newMax st newSumExp = Inr (st, newSumExp)"
| "blockKeys (score # scores) V k dims newMax st newSumExp =
     (let expScore = Math_exp (score - newMax) in
      if dims = 0 then blockKeys scores V (Suc k) dims newMax st (newSumExp + expScore)
      else case rd V k of
        None \<Rightarrow> Inl TypeError
      | Some value \<Rightarrow>
          blockKeys scores V (Suc k) dims newMax (addWeighted expScore value k st 0 dims)
            (newSumExp + expScore))"

text \<open>
  The body of the loop over \<open>qi\<close>, on the state of one query (output row, running
  maximum, running sum) and the trace. The block maximum is found by the same loop as
  in \<^verbatim>\<open>softmax\<close>. The new maximum and the new sum are rounded when stored.
\<close>

definition rowStep ::
  "jsnum list \<Rightarrow> jsnum list list \<Rightarrow> nat \<Rightarrow> nat \<Rightarrow> (jsnum list \<times> jsnum \<times> jsnum) \<times> reads
     \<Rightarrow> attention_error + ((jsnum list \<times> jsnum \<times> jsnum) \<times> reads)" where
  "rowStep rowScores V kStart dims st =
     (case st of ((out, oldMax, oldSum), trace) \<Rightarrow>
        (let blockMax = maxLoop rowScores NegInf;
             newMax = Math_max2 oldMax blockMax;
             correction = (if oldMax = NegInf then Num 0 else Math_exp (oldMax - newMax))
         in case blockKeys rowScores V kStart dims newMax (scaleRow correction out 0 dims, trace)
                   (oldSum * correction) of
              Inl e \<Rightarrow> Inl e
            | Inr ((out', trace'), newSumExp) \<Rightarrow> Inr ((out', fround newMax, fround newSumExp), trace')))"

text \<open>
  The loop over \<open>qi\<close>: \<open>globalQi\<close> is the index of the next query, which lies within
  the three arrays of the state.
\<close>

fun accumulateRows ::
  "jsnum list list \<Rightarrow> jsnum list list \<Rightarrow> OnlineState \<times> reads \<Rightarrow> nat \<Rightarrow> nat \<Rightarrow> nat
     \<Rightarrow> attention_error + (OnlineState \<times> reads)" where
  "accumulateRows [] V st globalQi kStart dims = Inr st"
| "accumulateRows (rowScores # rows) V (st, trace) globalQi kStart dims =
     (case rowStep rowScores V kStart dims
             ((outputRows st ! globalQi, maxScores st ! globalQi, sumExp st ! globalQi), trace) of
        Inl e \<Rightarrow> Inl e
      | Inr ((out', newMax, newSumExp), trace') \<Rightarrow>
          accumulateRows rows V
            (st\<lparr> outputRows := (outputRows st)[globalQi := out'],
                  maxScores := (maxScores st)[globalQi := newMax],
                  sumExp := (sumExp st)[globalQi := newSumExp] \<rparr>, trace')
            (Suc globalQi) kStart dims)"

text \<open>\<^verbatim>\<open>const dimensions = output[0]?.length ?? this.config.dimensions\<close>.\<close>

definition onlineSoftmaxAccumulate ::
  "FlashAttentionConfig \<Rightarrow> jsnum list list \<Rightarrow> jsnum list list \<Rightarrow> OnlineState \<times> reads \<Rightarrow> nat \<Rightarrow> nat
     \<Rightarrow> attention_error + (OnlineState \<times> reads)" where
  "onlineSoftmaxAccumulate cfg blockScores V st qStart kStart =
     accumulateRows blockScores V st qStart kStart
       (case outputRows (fst st) of [] \<Rightarrow> dimensions cfg | out0 # _ \<Rightarrow> length out0)"

subsection \<open>blockAttention\<close>

text \<open>
  The two loops of \<^verbatim>\<open>blockAttention\<close>, each from its loop variable on. They advance
  by \<open>bs\<close>, the block size; the test \<open>0 < bs\<close> is there for the recursion to be
  total and is true whenever \<open>blockAttention\<close> below enters a loop.
\<close>

function queryLoop ::
  "FlashAttentionConfig \<Rightarrow> jsnum list list \<Rightarrow> jsnum list list \<Rightarrow> jsnum list list \<Rightarrow> nat \<Rightarrow> jsnum
     \<Rightarrow> nat \<Rightarrow> nat \<Rightarrow> OnlineState \<times> reads \<Rightarrow> nat \<Rightarrow> attention_error + (OnlineState \<times> reads)" where
  "queryLoop cfg Q K V bs scale kStart kEnd st qStart =
     (if qStart < length Q \<and> 0 < bs then
        (case onlineSoftmaxAccumulate cfg
                (computeBlockScores Q K qStart (min (qStart + bs) (length Q)) kStart kEnd scale)
                V st qStart kStart of
           Inl e \<Rightarrow> Inl e
         | Inr st' \<Rightarrow> queryLoop cfg Q K V bs scale kStart kEnd st' (qStart + bs))
      else Inr st)"
  by pat_completeness auto
termination
  by (relation "measure (\<lambda>(cfg, Q, K, V, bs, scale, kStart, kEnd, st, qStart). length Q - qStart)") auto

declare queryLoop.simps [simp del]

function keyLoop ::
  "FlashAttentionConfig \<Rightarrow> jsnum list list \<Rightarrow> jsnum list list \<Rightarrow> jsnum list list \<Rightarrow> nat \<Rightarrow> jsnum
     \<Rightarrow> OnlineState \<times> reads \<Rightarrow> nat \<Rightarrow> attention_error + (OnlineState \<times> reads)" where
  "keyLoop cfg Q K V bs scale st kStart =
     (if kStart < length K \<and> 0 < bs then
        (case queryLoop cfg Q K V bs scale kStart (min (kStart + bs) (length K)) st 0 of
           Inl e \<Rightarrow> Inl e
         | Inr st' \<Rightarrow> keyLoop cfg Q K V bs scale st' (kStart + bs))
      else Inr st)"
  by pat_completeness auto
termination
  by (relation "measure (\<lambda>(cfg, Q, K, V, bs, scale, st, kStart). length K - kStart)") auto

declare keyLoop.simps [simp del]

text \<open>
  ``Normalize outputs by final sum of exponentials'', for one query; the row has
  \<^verbatim>\<open>dimensions\<close> elements.
\<close>

definition normalizeRow :: "jsnum list \<Rightarrow> jsnum \<Rightarrow> jsnum list" where
  "normalizeRow out normalizer =
     (if normalizer > Num 0 then map (\<lambda>x. fround (x / normalizer)) out else out)"

definition initialState :: "nat \<Rightarrow> nat \<Rightarrow> OnlineState" where
  "initialState numQueries dims =
     \<lparr> outputRows = replicate numQueries (zeros dims),
       maxScores = replicate numQueries NegInf,
       sumExp = zeros numQueries \<rparr>"

text \<open>
  With a block size of 0 and at least one key the loop variables never advance and
  the call does not return: that is the result \<open>None\<close>. Every other call returns.
\<close>

definition blockAttention ::
  "FlashAttentionConfig \<Rightarrow> jsnum list list \<Rightarrow> jsnum list list \<Rightarrow> jsnum list list \<Rightarrow> nat
     \<Rightarrow> (attention_error + (jsnum list list \<times> reads)) option" where
  "blockAttention cfg Q K V bs =
     (if bs = 0 \<and> K \<noteq> [] then None
      else Some
        (case keyLoop cfg Q K V bs (scaleOf cfg (dimensionsOf cfg Q))
                (initialState (length Q) (dimensionsOf cfg Q), []) 0 of
           Inl e \<Rightarrow> Inl e
         | Inr (st, trace) \<Rightarrow> Inr (map2 normalizeRow (outputRows st) (sumExp st), trace)))"

section \<open>Flash attention: the public method\<close>

text \<open>
  \<^verbatim>\<open>attention\<close> validates, then takes the tiled computation when
  \<open>numQueries * numKeys > 1024\<close> and the direct one otherwise. The elapsed time it
  also returns is not modelled.
\<close>

definition attention ::
  "FlashAttentionConfig \<Rightarrow> jsnum list list \<Rightarrow> jsnum list list \<Rightarrow> jsnum list list
     \<Rightarrow> (attention_error + (jsnum list list \<times> reads)) option" where
  "attention cfg queries keys values =
     (case validateInputs queries keys values of
        Inl e \<Rightarrow> Some (Inl e)
      | Inr _ \<Rightarrow>
          (if length queries * length keys > 1024
           then blockAttention cfg queries keys values (blockSize cfg)
           else Some (naiveAttention cfg queries keys values)))"

section \<open>Attention inputs used in the examples\<close>

text \<open>
  One query and two keys of dimension 2; the second value vector has one component
  only.
\<close>

definition raggedQueries :: "jsnum list list" where
  "raggedQueries = [[Num 1, Num 1]]"

definition raggedKeys :: "jsnum list list" where
  "raggedKeys = [[Num 1, Num 1], [Num 1, Num 1]]"

definition raggedValues :: "jsnum list list" where
  "raggedValues = [[Num 1, Num 1], [Num 1]]"


section \<open>Lemmas about numbers\<close>

subsection \<open>Arithmetic and order\<close>

lemma minus_Num [simp]: "Num a - Num b = Num (a - b)"
  by (simp add: minus_jsnum_def)

lemma minus_NaN [simp]: "x - NaN = NaN" "NaN - x = NaN"
  by (cases x; simp add: minus_jsnum_def)+

lemma less_NaN [simp]: "\<not> NaN < x" "\<not> x < NaN"
  by (cases x; simp)+

lemma jsnum_less_irrefl [simp]: "\<not> x < (x::jsnum)"
  by (cases x) simp_all

lemma jsnum_less_trans: "x < y \<Longrightarrow> y < z \<Longrightarrow> x < (z::jsnum)"
  by (cases x; cases y; cases z) simp_all

lemma jsnum_linear: "x \<noteq> NaN \<Longrightarrow> y \<noteq> NaN \<Longrightarrow> x < y \<or> x = y \<or> y < (x::jsnum)"
  by (cases x; cases y) auto

lemma jsnum_le_iff: "x \<noteq> NaN \<Longrightarrow> y \<noteq> NaN \<Longrightarrow> x \<le> y \<longleftrightarrow> \<not> y < (x::jsnum)"
  by (cases x; cases y) (auto simp: less_eq_jsnum_def)

lemma toNumber_simps [simp]: "toNumber None = NaN" "toNumber (Some x) = x"
  by (simp_all add: toNumber_def)

lemma rd_Some [simp]: "i < length xs \<Longrightarrow> rd xs i = Some (xs ! i)"
  by (simp add: rd_def)

lemma rd_None [simp]: "length xs \<le> i \<Longrightarrow> rd xs i = None"
  by (simp add: rd_def)

subsection \<open>Rounding to single precision\<close>

lemma rne_of_int [simp]: "rne (of_int n) = n"
  by (simp add: rne_def)

lemma rne_near: "\<bar>of_int (rne x) - x\<bar> \<le> 1 / 2"
  unfolding rne_def Let_def by (auto simp: abs_if) linarith+

lemma ulp_pos [simp]: "0 < ulp r"
  by (simp add: ulp_def)

lemma ulp_neq0 [simp]: "ulp r \<noteq> 0"
  by (simp add: ulp_def)

lemma powr2_add_nat: "(2::real) powr (x + real n) = 2 powr x * 2 ^ n"
  by (simp add: powr_add powr_realpow)

lemma ulp_shift: "2 powr real_of_int (binade r + 1) = ulp r * 2 ^ 24"
proof -
  have "real_of_int (binade r + 1) = real_of_int (binade r - 23) + real 24" by simp
  then show ?thesis by (simp only: ulp_def powr2_add_nat)
qed

lemma binade_ge: "- 126 \<le> binade r"
  by (simp add: binade_def)

lemma abs_less_binade:
  assumes "r \<noteq> 0"
  shows "\<bar>r\<bar> < 2 powr real_of_int (binade r + 1)"
proof -
  have p: "0 < \<bar>r\<bar>" using assms by simp
  define k where "k = \<lfloor>log 2 \<bar>r\<bar>\<rfloor>"
  have "\<bar>r\<bar> < 2 powr real_of_int (k + 1)"
    using floor_log_eq_powr_iff [OF p, of 2 k] by (simp add: k_def)
  also have "\<dots> \<le> 2 powr real_of_int (binade r + 1)"
    by (simp add: binade_def k_def)
  finally show ?thesis .
qed

lemma binade_le:
  assumes "r \<noteq> 0" and "\<bar>r\<bar> < 2 powr real_of_int (j + 1)" and "- 126 \<le> j"
  shows "binade r \<le> j"
proof -
  have p: "0 < \<bar>r\<bar>" using assms by simp
  define k where "k = \<lfloor>log 2 \<bar>r\<bar>\<rfloor>"
  have "2 powr real_of_int k \<le> \<bar>r\<bar>"
    using floor_log_eq_powr_iff [OF p, of 2 k] by (simp add: k_def)
  then have "2 powr real_of_int k < 2 powr real_of_int (j + 1)" using assms(2) by linarith
  then have "k < j + 1" by simp
  then show ?thesis using assms(3) by (simp add: binade_def k_def)
qed

lemma binade_lower:
  assumes "r \<noteq> 0" and "2 powr real_of_int j \<le> \<bar>r\<bar>"
  shows "j \<le> binade r"
proof -
  have p: "0 < \<bar>r\<bar>" using assms by simp
  define k where "k = \<lfloor>log 2 \<bar>r\<bar>\<rfloor>"
  have "\<bar>r\<bar> < 2 powr real_of_int (k + 1)"
    using floor_log_eq_powr_iff [OF p, of 2 k] by (simp add: k_def)
  then have "2 powr real_of_int j < 2 powr real_of_int (k + 1)" using assms(2) by linarith
  then have "j < k + 1" by simp
  then show ?thesis by (simp add: binade_def k_def)
qed

text \<open>A number with a 24-bit significand and an exponent in range is not changed.\<close>

lemma fround_exact:
  assumes r: "r = of_int m * 2 powr real_of_int k"
    and m: "\<bar>m\<bar> < 2 ^ 24" and k: "- 149 \<le> k" and fin: "\<bar>r\<bar> < 2 ^ 128"
  shows "fround (Num r) = Num r"
proof (cases "r = 0")
  case True
  then show ?thesis by (simp add: fround_def)
next
  case False
  then have m0: "m \<noteq> 0" using r by auto
  have "\<bar>r\<bar> = of_int \<bar>m\<bar> * 2 powr real_of_int k" by (simp add: r abs_mult)
  also have "\<dots> < 2 ^ 24 * 2 powr real_of_int k"
  proof -
    have "real_of_int \<bar>m\<bar> < real_of_int (2 ^ 24)" using m by (simp only: of_int_less_iff)
    then show ?thesis by simp
  qed
  also have "\<dots> = 2 powr real_of_int (23 + k + 1)"
  proof -
    have "real_of_int (23 + k + 1) = real_of_int k + real 24" by simp
    then show ?thesis by (simp only: powr2_add_nat mult.commute)
  qed
  finally have "\<bar>r\<bar> < 2 powr real_of_int (23 + k + 1)" .
  then have e: "binade r \<le> 23 + k" using binade_le [OF False] k by simp
  define j where "j = nat (k - (binade r - 23))"
  have jk: "k = (binade r - 23) + int j" using e by (simp add: j_def)
  have pk: "2 powr real_of_int k = ulp r * 2 ^ j"
    unfolding ulp_def by (subst jk) (simp add: powr_add powr_realpow)
  have e1: "r = of_int m * (ulp r * 2 ^ j)"
    by (subst pk [symmetric]) (rule r)
  then have "r / ulp r = (of_int m * (ulp r * 2 ^ j)) / ulp r"
    by (rule arg_cong [where f = "\<lambda>x. x / ulp r"])
  also have "\<dots> = of_int (m * 2 ^ j)" by simp
  finally have "rne (r / ulp r) = m * 2 ^ j" by (simp only: rne_of_int)
  then have "of_int (rne (r / ulp r)) * ulp r = of_int m * (ulp r * 2 ^ j)" by simp
  then have "of_int (rne (r / ulp r)) * ulp r = r" using e1 by simp
  then show ?thesis using False fin by (simp add: fround_def Let_def)
qed

lemma fround_of_int:
  assumes "\<bar>n\<bar> < 2 ^ 24"
  shows "fround (Num (of_int n)) = Num (of_int n)"
proof -
  have "real_of_int \<bar>n\<bar> < real_of_int (2 ^ 24)" using assms by (simp only: of_int_less_iff)
  then have "\<bar>real_of_int n\<bar> < 2 ^ 24" by simp
  then have "\<bar>real_of_int n\<bar> < 2 ^ 128" by (rule less_trans) simp
  then show ?thesis using fround_exact [of "of_int n" n 0] assms by simp
qed

lemma fround_0 [simp]: "fround (Num 0) = Num 0"
  by (simp add: fround_def)

lemma fround_1 [simp]: "fround (Num 1) = Num 1"
  using fround_of_int [of 1] by simp

lemma fround_half [simp]: "fround (Num (1 / 2)) = Num (1 / 2)"
  using fround_exact [of "1 / 2" 1 "- 1"] by (simp add: powr_int)

lemma fround_special [simp]: "fround PosInf = PosInf" "fround NegInf = NegInf" "fround NaN = NaN"
  by (simp_all add: fround_def)

text \<open>Rounding is idempotent: the result of a store is a single-precision value.\<close>

lemma fround_idem: "fround (fround x) = fround x"
proof (cases x)
  case (Num r)
  show ?thesis
  proof (cases "r = 0")
    case True
    then show ?thesis using Num by simp
  next
    case False
    define n where "n = rne (r / ulp r)"
    define y where "y = of_int n * ulp r"
    show ?thesis
    proof (cases "2 ^ 128 \<le> \<bar>y\<bar>")
      case True
      then show ?thesis using Num False by (simp add: fround_def Let_def y_def n_def)
    next
      case fin: False
      have fy: "fround x = Num y" using Num False fin by (simp add: fround_def Let_def y_def n_def)
      have "\<bar>r / ulp r\<bar> < 2 powr real_of_int (binade r + 1) / ulp r"
        using abs_less_binade [OF False] by (simp add: divide_strict_right_mono abs_of_pos [OF ulp_pos])
      also have "\<dots> = 2 ^ 24"
        by (simp only: ulp_shift) simp
      finally have b: "\<bar>r / ulp r\<bar> < 2 ^ 24" .
      have "\<bar>of_int n - r / ulp r\<bar> \<le> 1 / 2" unfolding n_def by (rule rne_near)
      then have "\<bar>real_of_int n\<bar> < 2 ^ 24 + 1 / 2" using b by linarith
      then have "real_of_int \<bar>n\<bar> < real_of_int (2 ^ 24 + 1)" by simp
      then have "\<bar>n\<bar> < 2 ^ 24 + 1" by (simp only: of_int_less_iff)
      then have nle: "\<bar>n\<bar> \<le> 2 ^ 24" by simp
      have ge: "- 149 \<le> binade r - 23" using binade_ge [of r] by simp
      have "fround (Num y) = Num y"
      proof (cases "\<bar>n\<bar> < 2 ^ 24")
        case True
        show ?thesis
          by (rule fround_exact [of y n "binade r - 23"]) (use True ge fin in \<open>simp_all add: y_def ulp_def\<close>)
      next
        case False
        then have "\<bar>n\<bar> = 2 ^ 24" using nle by simp
        then consider "n = 2 ^ 24" | "n = - (2 ^ 24)" by (auto simp: abs_if split: if_splits)
        then obtain sg :: int where sg: "\<bar>sg\<bar> = 1" "n = sg * 2 ^ 24"
        proof cases
          case 1
          then show ?thesis using that [of 1] by simp
        next
          case 2
          then show ?thesis using that [of "- 1"] by simp
        qed
        have "ulp r * 2 ^ 24 = 2 powr real_of_int (binade r + 1)"
          by (simp only: ulp_shift)
        then have yy: "y = of_int sg * 2 powr real_of_int (binade r + 1)"
          by (simp add: y_def sg(2) mult.assoc mult.commute)
        show ?thesis
          by (rule fround_exact [OF yy]) (use sg(1) ge fin in simp_all)
      qed
      then show ?thesis by (simp add: fy)
    qed
  qed
qed simp_all

text \<open>A number of moderate size stays finite.\<close>

lemma fround_finite:
  assumes "\<bar>r\<bar> < 2 ^ 127"
  shows "\<exists>y. fround (Num r) = Num y"
proof (cases "r = 0")
  case True
  then show ?thesis by simp
next
  case False
  have "(2::real) ^ 127 = 2 powr real_of_int (126 + 1)" by (simp add: powr_int)
  then have "\<bar>r\<bar> < 2 powr real_of_int (126 + 1)" using assms by simp
  then have e: "binade r \<le> 126" using binade_le [OF False, of 126] by simp
  have "ulp r \<le> 2 powr real_of_int 103" unfolding ulp_def by (rule powr_mono) (use e in simp_all)
  then have u: "ulp r \<le> 2 ^ 103" by simp
  define n where "n = rne (r / ulp r)"
  have "\<bar>of_int n - r / ulp r\<bar> \<le> 1 / 2" unfolding n_def by (rule rne_near)
  then have "\<bar>of_int n - r / ulp r\<bar> * ulp r \<le> 1 / 2 * ulp r"
    by (rule mult_right_mono) (rule less_imp_le [OF ulp_pos])
  moreover have "of_int n * ulp r - r = (of_int n - r / ulp r) * ulp r"
    by (simp add: left_diff_distrib)
  then have "\<bar>of_int n * ulp r - r\<bar> = \<bar>of_int n - r / ulp r\<bar> * ulp r"
    by (simp only: abs_mult abs_of_pos [OF ulp_pos])
  ultimately have "\<bar>of_int n * ulp r - r\<bar> \<le> 1 / 2 * ulp r" by simp
  then have "\<bar>of_int n * ulp r\<bar> < 2 ^ 128" using assms u by (simp add: abs_if split: if_splits)
  then show ?thesis using False by (simp add: fround_def Let_def n_def)
qed








section \<open>Lemmas about the router\<close>

subsection \<open>indexOf and argmax\<close>

lemma indexOf_None: "indexOf xs a = None \<longleftrightarrow> a \<notin> set xs"
  by (induction xs) auto

lemma indexOf_notin: "a \<notin> set xs \<Longrightarrow> indexOf xs a = None"
  by (simp add: indexOf_None)

lemma indexOf_Some: "indexOf xs a = Some i \<Longrightarrow> i < length xs \<and> xs ! i = a"
  by (induction xs arbitrary: i) (auto split: if_splits)

lemma indexOf_known: "a \<in> set xs \<Longrightarrow> \<exists>i. indexOf xs a = Some i"
  using indexOf_None [of xs a] by (cases "indexOf xs a") auto

text \<open>Nothing is greater than a running maximum that is \<^verbatim>\<open>NaN\<close>.\<close>

lemma argmax_from_NaN: "argmax_from vs i maxIdx NaN = maxIdx"
  by (induction vs arbitrary: i) simp_all

text \<open>
  The loop invariant of \<^verbatim>\<open>argmax\<close> when the first value is a number: \<open>pre\<close> holds the
  values already visited, \<open>maxVal\<close> is the value at \<open>maxIdx\<close> and is a number, no
  visited value exceeds it, and every value before \<open>maxIdx\<close> is strictly smaller or
  \<^verbatim>\<open>NaN\<close>.
\<close>

lemma argmax_from_spec:
  "maxIdx < length pre \<Longrightarrow> i = length pre \<Longrightarrow> maxVal = pre ! maxIdx \<Longrightarrow> maxVal \<noteq> NaN \<Longrightarrow>
   (\<forall>j<length pre. \<not> maxVal < pre ! j) \<Longrightarrow> (\<forall>j<maxIdx. pre ! j < maxVal \<or> pre ! j = NaN) \<Longrightarrow>
   argmax_from vs i maxIdx maxVal < length (pre @ vs) \<and>
   (pre @ vs) ! argmax_from vs i maxIdx maxVal \<noteq> NaN \<and>
   (\<forall>j<length (pre @ vs). \<not> (pre @ vs) ! argmax_from vs i maxIdx maxVal < (pre @ vs) ! j) \<and>
   (\<forall>j<argmax_from vs i maxIdx maxVal.
      (pre @ vs) ! j < (pre @ vs) ! argmax_from vs i maxIdx maxVal \<or> (pre @ vs) ! j = NaN)"
proof (induction vs arbitrary: pre i maxIdx maxVal)
  case Nil
  then show ?case by simp
next
  case (Cons v vs)
  show ?case
  proof (cases "v > maxVal")
    case True
    then have vn: "v \<noteq> NaN" by auto
    have a: "length pre < length (pre @ [v])" by simp
    have b: "Suc i = length (pre @ [v])" using Cons.prems by simp
    have c: "v = (pre @ [v]) ! length pre" by simp
    have old: "pre ! j < v \<or> pre ! j = NaN" if "j < length pre" for j
    proof (cases "pre ! j = NaN")
      case False
      have "\<not> maxVal < pre ! j" using Cons.prems(5) that by blast
      then have "pre ! j < maxVal \<or> pre ! j = maxVal"
        using jsnum_linear [OF False Cons.prems(4)] by blast
      then show ?thesis using True jsnum_less_trans by blast
    qed simp
    have d: "\<forall>j<length (pre @ [v]). \<not> v < (pre @ [v]) ! j"
    proof (intro allI impI)
      fix j assume "j < length (pre @ [v])"
      then consider "j < length pre" | "j = length pre" by fastforce
      then show "\<not> v < (pre @ [v]) ! j"
      proof cases
        case 1
        have "\<not> maxVal < pre ! j" using Cons.prems(5) 1 by blast
        then have "\<not> v < pre ! j" using True jsnum_less_trans by blast
        then show ?thesis using 1 by (simp add: nth_append)
      next
        case 2
        then show ?thesis by simp
      qed
    qed
    have e: "\<forall>j<length pre. (pre @ [v]) ! j < v \<or> (pre @ [v]) ! j = NaN"
      using old by (auto simp: nth_append)
    from Cons.IH [of "length pre" "pre @ [v]" "Suc i" v, OF a b c vn d e] True Cons.prems(2)
    show ?thesis by simp
  next
    case False
    have a: "maxIdx < length (pre @ [v])" using Cons.prems by simp
    have b: "Suc i = length (pre @ [v])" using Cons.prems by simp
    have c: "maxVal = (pre @ [v]) ! maxIdx" using Cons.prems by (simp add: nth_append)
    have d: "\<forall>j<length (pre @ [v]). \<not> maxVal < (pre @ [v]) ! j"
      using Cons.prems False by (auto simp: nth_append less_Suc_eq)
    have e: "\<forall>j<maxIdx. (pre @ [v]) ! j < maxVal \<or> (pre @ [v]) ! j = NaN"
      using Cons.prems by (auto simp: nth_append)
    from Cons.IH [of maxIdx "pre @ [v]" "Suc i" maxVal, OF a b c Cons.prems(4) d e] False
    show ?thesis by simp
  qed
qed

lemma argmax_spec:
  assumes "values \<noteq> []" and "values ! 0 \<noteq> NaN"
  shows "argmax values < length values \<and>
         values ! argmax values \<noteq> NaN \<and>
         (\<forall>j<length values. \<not> values ! argmax values < values ! j) \<and>
         (\<forall>j<argmax values. values ! j < values ! argmax values \<or> values ! j = NaN)"
proof -
  obtain v vs where vs: "values = v # vs" using assms by (cases "values") auto
  have vn: "v \<noteq> NaN" using assms(2) by (simp add: vs)
  have "argmax_from vs 1 0 v < length ([v] @ vs) \<and>
   ([v] @ vs) ! argmax_from vs 1 0 v \<noteq> NaN \<and>
   (\<forall>j<length ([v] @ vs). \<not> ([v] @ vs) ! argmax_from vs 1 0 v < ([v] @ vs) ! j) \<and>
   (\<forall>j<argmax_from vs 1 0 v. ([v] @ vs) ! j < ([v] @ vs) ! argmax_from vs 1 0 v \<or> ([v] @ vs) ! j = NaN)"
    by (rule argmax_from_spec) (use vn in auto)
  then show ?thesis by (simp add: vs argmax_def)
qed

lemma argmax_degenerate: "values = [] \<or> values ! 0 = NaN \<Longrightarrow> argmax values = 0"
  by (cases "values") (auto simp: argmax_def argmax_from_NaN)

subsection \<open>route reads the table and nothing else\<close>

lemma route_state: "fst (snd (route s t e rnd pos)) = s"
  by (simp add: route_def Let_def)

lemma route_many_state: "fst (route_many s calls rnd pos) = s"
proof (induction calls arbitrary: pos)
  case Nil
  show ?case by simp
next
  case (Cons c calls)
  obtain t e where c: "c = (t, e)" by (cases c)
  obtain d s' pos' where r: "route s t e rnd pos = (d, s', pos')" by (cases "route s t e rnd pos")
  have "s' = s" using route_state [of s t e rnd pos] r by simp
  then show ?case using Cons.IH [of pos'] by (simp add: c r)
qed

lemma route_exploit_fields:
  "d_route (fst (route s t False rnd pos)) =
     (case rd ROUTE_NAMES (argmax (getQValues s (hashState t))) of Some name \<Rightarrow> name | None \<Rightarrow> ''coder'') \<and>
   d_explored (fst (route s t False rnd pos)) = False \<and>
   d_qValues (fst (route s t False rnd pos)) = getQValues s (hashState t) \<and>
   snd (snd (route s t False rnd pos)) = pos"
  by (simp add: route_def Let_def)

lemma route_exploit_from_qvs:
  "getQValues s (hashState t) = getQValues s' (hashState t) \<Longrightarrow>
   fst (route s t False rnd pos) = fst (route s' t False rnd' pos')"
  by (simp add: route_def Let_def)


subsection \<open>export and import over tables with distinct keys\<close>

lemma update_new_key: "k \<notin> fst ` set al \<Longrightarrow> AList.update k v al = al @ [(k, v)]"
  by (induction al) auto

lemma fold_update_distinct:
  "distinct (map fst acc @ map fst xs) \<Longrightarrow>
   fold (\<lambda>(k, e) t. AList.update k (f e) t) xs acc = acc @ map (\<lambda>(k, e). (k, f e)) xs"
proof (induction xs arbitrary: acc)
  case Nil
  show ?case by simp
next
  case (Cons x xs)
  obtain k e where x: "x = (k, e)" by (cases x)
  have new: "k \<notin> fst ` set acc" using Cons.prems by (auto simp: x)
  have d: "distinct (map fst (acc @ [(k, f e)]) @ map fst xs)" using Cons.prems by (auto simp: x)
  show ?case using Cons.IH [OF d] by (simp add: x update_new_key [OF new])
qed

lemma fold_update_enumerate:
  "distinct (map fst acc @ map fst xs) \<Longrightarrow>
   fold (\<lambda>(i, k, e) t. AList.update k (f i e) t) (enumerate n xs) acc
     = acc @ map (\<lambda>(i, k, e). (k, f i e)) (enumerate n xs)"
proof (induction xs arbitrary: acc n)
  case Nil
  show ?case by simp
next
  case (Cons x xs)
  obtain k e where x: "x = (k, e)" by (cases x)
  have new: "k \<notin> fst ` set acc" using Cons.prems by (auto simp: x)
  have d: "distinct (map fst (acc @ [(k, f n e)]) @ map fst xs)" using Cons.prems by (auto simp: x)
  show ?case using Cons.IH [OF d, of "Suc n"] by (simp add: x update_new_key [OF new])
qed

lemma import_distinct:
  "distinct (map fst data) \<Longrightarrow>
   import s data clock =
     s\<lparr> qTable := map (\<lambda>(i, key, entry).
                        (key, \<lparr> qValues = float32Array (p_qValues entry), visits = p_visits entry,
                                lastUpdate = clock i \<rparr>)) (enumerate 0 data) \<rparr>"
  using fold_update_enumerate [of "[]" data
          "\<lambda>i entry. \<lparr> qValues = float32Array (p_qValues entry), visits = p_visits entry, lastUpdate = clock i \<rparr>" 0]
  by (simp add: import_def)

lemma export_distinct:
  "distinct (map fst (qTable s)) \<Longrightarrow>
   export s = map (\<lambda>(key, entry). (key, \<lparr> p_qValues = qValues entry, p_visits = visits entry \<rparr>)) (qTable s)"
  using fold_update_distinct [of "[]" "qTable s" "\<lambda>entry. \<lparr> p_qValues = qValues entry, p_visits = visits entry \<rparr>"]
  by (simp add: export_def)



lemma map_fst_enumerate_entry:
  "map fst (map (\<lambda>(i, key, entry). (key, f i entry)) (enumerate n al)) = map fst al"
  by (induction al arbitrary: n) auto

lemma map_of_enumerate_entry:
  "map_of (map (\<lambda>(i, key, entry). (key, f i entry)) (enumerate n al)) k = Some e \<Longrightarrow>
   \<exists>i e0. map_of al k = Some e0 \<and> e = f i e0"
  by (induction al arbitrary: n) (auto split: if_splits)


subsection \<open>Fields\<close>

lemma zeros8: "zeros 8 = [Num 0, Num 0, Num 0, Num 0, Num 0, Num 0, Num 0, Num 0]"
  by (simp add: zeros_def eval_nat_numeral)

lemma newRouter_fields [simp]:
  "config (newRouter c) = c" "qTable (newRouter c) = []" "epsilon (newRouter c) = explorationInitial c"
  "stepCount (newRouter c) = 0" "updateCount (newRouter c) = 0" "avgTDError (newRouter c) = Num 0"
  "routeCache (newRouter c) = []" "cacheOrder (newRouter c) = []"
  "cacheHits (newRouter c) = 0" "cacheMisses (newRouter c) = 0"
  by (simp_all add: newRouter_def)

lemma DEFAULT_CONFIG_fields [simp]:
  "learningRate DEFAULT_CONFIG = 1 / 10" "gamma DEFAULT_CONFIG = 99 / 100"
  "explorationInitial DEFAULT_CONFIG = 1" "explorationFinal DEFAULT_CONFIG = 1 / 100"
  "explorationDecay DEFAULT_CONFIG = 10000" "explorationDecayType DEFAULT_CONFIG = Exponential"
  "maxStates DEFAULT_CONFIG = 10000" "numActions DEFAULT_CONFIG = 8"
  by (simp_all add: DEFAULT_CONFIG_def)

lemma import_fields [simp]:
  "config (import s data clock) = config s" "epsilon (import s data clock) = epsilon s"
  "stepCount (import s data clock) = stepCount s" "updateCount (import s data clock) = updateCount s"
  "avgTDError (import s data clock) = avgTDError s"
  "routeCache (import s data clock) = routeCache s" "cacheOrder (import s data clock) = cacheOrder s"
  "cacheHits (import s data clock) = cacheHits s" "cacheMisses (import s data clock) = cacheMisses s"
  by (simp_all add: import_def)

lemma step_fields [simp]:
  "qTable (decayExploration s) = qTable s" "config (decayExploration s) = config s"
  "qTable (recordTDError s td) = qTable s" "config (recordTDError s td) = config s"
  "config (writeEntry s k e a td now) = config s"
  "config (pruneQTable s) = config s" "config (pruneIfNeeded s) = config s"
  by (simp_all add: decayExploration_def recordTDError_def writeEntry_def pruneQTable_def pruneIfNeeded_def)

lemma cache_fields_steps [simp]:
  "routeCache (decayExploration s) = routeCache s" "cacheOrder (decayExploration s) = cacheOrder s"
  "cacheHits (decayExploration s) = cacheHits s" "cacheMisses (decayExploration s) = cacheMisses s"
  "routeCache (recordTDError s td) = routeCache s" "cacheOrder (recordTDError s td) = cacheOrder s"
  "cacheHits (recordTDError s td) = cacheHits s" "cacheMisses (recordTDError s td) = cacheMisses s"
  "routeCache (writeEntry s k e a td now) = routeCache s" "cacheOrder (writeEntry s k e a td now) = cacheOrder s"
  "cacheHits (writeEntry s k e a td now) = cacheHits s" "cacheMisses (writeEntry s k e a td now) = cacheMisses s"
  "routeCache (pruneIfNeeded s) = routeCache s" "cacheOrder (pruneIfNeeded s) = cacheOrder s"
  "cacheHits (pruneIfNeeded s) = cacheHits s" "cacheMisses (pruneIfNeeded s) = cacheMisses s"
  by (simp_all add: decayExploration_def recordTDError_def writeEntry_def pruneQTable_def pruneIfNeeded_def)

subsection \<open>The structure of an update with a known action\<close>

lemma getOrCreateEntry_cases:
  assumes "getOrCreateEntry s k created = (entry, s1)"
  shows "config s1 = config s \<and> map_of (qTable s1) k = Some entry \<and>
         ((k \<in> fst ` set (qTable s) \<and> qTable s1 = qTable s) \<or>
          (k \<notin> fst ` set (qTable s) \<and> qTable s1 = qTable s @ [(k, entry)]))"
proof (cases "map_of (qTable s) k")
  case None
  then have new: "k \<notin> fst ` set (qTable s)" by (simp add: map_of_eq_None_iff)
  then show ?thesis using assms None
    by (auto simp: getOrCreateEntry_def Let_def update_new_key map_add_def)
next
  case (Some e)
  then have "k \<in> fst ` set (qTable s)" by (metis domI dom_map_of_conv_image_fst)
  then show ?thesis using assms Some by (auto simp: getOrCreateEntry_def)
qed

lemma getOrCreateEntry_others:
  assumes "getOrCreateEntry s k created = (entry, s1)"
  shows "epsilon s1 = epsilon s \<and> stepCount s1 = stepCount s \<and> updateCount s1 = updateCount s \<and>
         avgTDError s1 = avgTDError s \<and> routeCache s1 = routeCache s \<and> cacheOrder s1 = cacheOrder s \<and>
         cacheHits s1 = cacheHits s \<and> cacheMisses s1 = cacheMisses s"
  using assms by (auto simp: getOrCreateEntry_def Let_def split: option.splits)

lemma update_known:
  assumes "indexOf ROUTE_NAMES action = Some a"
    and "getOrCreateEntry s (hashState t) created = (entry, s1)"
  shows "update s t action reward next created now =
           (targetQ s1 reward next - toNumber (rd (qValues entry) a),
            recordTDError (pruneIfNeeded (decayExploration
              (writeEntry s1 (hashState t) entry a
                 (targetQ s1 reward next - toNumber (rd (qValues entry) a)) now)))
              (targetQ s1 reward next - toNumber (rd (qValues entry) a)))"
  using assms by (simp add: update_def Let_def)

lemma update_cases:
  assumes "action \<in> set ROUTE_NAMES"
  obtains a entry s1 td where
    "indexOf ROUTE_NAMES action = Some a"
    "getOrCreateEntry s (hashState t) created = (entry, s1)"
    "update s t action reward next created now =
       (td, recordTDError (pruneIfNeeded (decayExploration (writeEntry s1 (hashState t) entry a td now))) td)"
proof -
  obtain a where a: "indexOf ROUTE_NAMES action = Some a"
    using indexOf_known [OF assms] by blast
  obtain entry s1 where g: "getOrCreateEntry s (hashState t) created = (entry, s1)"
    by (cases "getOrCreateEntry s (hashState t) created")
  show ?thesis using that [OF a g update_known [OF a g]] .
qed

lemma update_epsilon_linear:
  assumes "action \<in> set ROUTE_NAMES"
  shows "stepCount (snd (update s t action reward next created now)) = stepCount s + 1 \<and>
         epsilon (snd (update s t action reward next created now))
           = decayedEpsilon (config s) (stepCount s + 1)"
proof -
  obtain a entry s1 td where
    g: "getOrCreateEntry s (hashState t) created = (entry, s1)" and
    u: "update s t action reward next created now =
          (td, recordTDError (pruneIfNeeded (decayExploration (writeEntry s1 (hashState t) entry a td now))) td)"
    using assms by (rule update_cases)
  have g1: "config s1 = config s" using getOrCreateEntry_cases [OF g] by simp
  have g2: "stepCount s1 = stepCount s" using getOrCreateEntry_others [OF g] by simp
  show ?thesis
    by (simp add: u recordTDError_def pruneIfNeeded_def pruneQTable_def decayExploration_def writeEntry_def g1 g2)
qed

lemma decayedEpsilon_floor: "explorationFinal c \<le> decayedEpsilon c step"
  by (simp add: decayedEpsilon_def)

lemma update_keeps_cache:
  "routeCache (snd (update s t action reward next created now)) = routeCache s \<and>
   cacheOrder (snd (update s t action reward next created now)) = cacheOrder s \<and>
   cacheHits (snd (update s t action reward next created now)) = cacheHits s \<and>
   cacheMisses (snd (update s t action reward next created now)) = cacheMisses s"
proof (cases "action \<in> set ROUTE_NAMES")
  case False
  then show ?thesis by (simp add: update_def indexOf_notin)
next
  case True
  then obtain a entry s1 td where
    g: "getOrCreateEntry s (hashState t) created = (entry, s1)" and
    u: "update s t action reward next created now =
          (td, recordTDError (pruneIfNeeded (decayExploration (writeEntry s1 (hashState t) entry a td now))) td)"
    by (rule update_cases)
  show ?thesis using getOrCreateEntry_others [OF g] by (simp add: u)
qed

subsection \<open>Eviction of the oldest entries\<close>

lemma delete_filter: "AList.delete k T = filter (\<lambda>p. fst p \<noteq> k) T"
  by (induction T) auto

lemma fold_delete_filter:
  "fold (\<lambda>e t. AList.delete (fst e) t) es T = filter (\<lambda>p. fst p \<notin> fst ` set es) T"
proof (induction es arbitrary: T)
  case Nil
  show ?case by simp
next
  case (Cons e es)
  have "fold (\<lambda>e t. AList.delete (fst e) t) (e # es) T
          = filter (\<lambda>p. fst p \<notin> fst ` set es) (filter (\<lambda>p. fst p \<noteq> fst e) T)"
    using Cons.IH [of "AList.delete (fst e) T"] by (simp add: delete_filter)
  also have "\<dots> = filter (\<lambda>p. fst p \<notin> fst ` set (e # es)) T"
    by (induction T) auto
  finally show ?case .
qed

lemma distinct_keys_pairs: "distinct (map fst T) \<Longrightarrow> distinct T"
  by (simp add: distinct_map)

lemma key_mem_iff:
  assumes "distinct (map fst T)" and "set es \<subseteq> set T" and "p \<in> set T"
  shows "fst p \<in> fst ` set es \<longleftrightarrow> p \<in> set es"
proof
  assume "fst p \<in> fst ` set es"
  then obtain q where q: "q \<in> set es" "fst q = fst p" by auto
  then have "q \<in> set T" using assms(2) by auto
  then have "q = p" using assms(1,3) q(2) by (auto simp: distinct_map inj_on_def)
  then show "p \<in> set es" using q(1) by simp
next
  assume "p \<in> set es"
  then show "fst p \<in> fst ` set es" by simp
qed

lemma take_drop_split:
  assumes "distinct xs" and "p \<in> set xs"
  shows "p \<in> set (take n xs) \<longleftrightarrow> p \<notin> set (drop n xs)"
proof -
  have "set (take n xs) \<inter> set (drop n xs) = {}"
    using assms(1) by (rule set_take_disj_set_drop_if_distinct) simp
  moreover have "set (take n xs) \<union> set (drop n xs) = set xs"
    by (metis append_take_drop_id set_append)
  ultimately show ?thesis using assms(2) by auto
qed

lemma prune_filter:
  assumes "distinct (map fst T)"
  shows "filter (\<lambda>p. fst p \<notin> fst ` set (take n (sort_key f T))) T
           = filter (\<lambda>p. p \<in> set (drop n (sort_key f T))) T"
proof (rule filter_cong [OF refl])
  fix p assume p: "p \<in> set T"
  have sub: "set (take n (sort_key f T)) \<subseteq> set T"
    using set_take_subset [of n "sort_key f T"] by simp
  have d: "distinct (sort_key f T)" using distinct_keys_pairs [OF assms] by simp
  have "fst p \<in> fst ` set (take n (sort_key f T)) \<longleftrightarrow> p \<in> set (take n (sort_key f T))"
    by (rule key_mem_iff [OF assms sub p])
  also have "\<dots> \<longleftrightarrow> p \<notin> set (drop n (sort_key f T))"
    by (rule take_drop_split [OF d]) (simp add: p)
  finally show "(fst p \<notin> fst ` set (take n (sort_key f T))) = (p \<in> set (drop n (sort_key f T)))"
    by simp
qed

lemma evictOldest_eq:
  "distinct (map fst T) \<Longrightarrow>
   evictOldest T n = filter (\<lambda>p. p \<in> set (drop n (sort_key (\<lambda>e. lastUpdate (snd e)) T))) T"
  by (simp add: evictOldest_def fold_delete_filter prune_filter)

lemma set_evictOldest:
  assumes "distinct (map fst T)"
  shows "set (evictOldest T n) = set (drop n (sort_key (\<lambda>e. lastUpdate (snd e)) T))"
proof -
  have "set (drop n (sort_key (\<lambda>e. lastUpdate (snd e)) T)) \<subseteq> set T"
    using set_drop_subset [of n "sort_key (\<lambda>e. lastUpdate (snd e)) T"] by simp
  then show ?thesis by (auto simp: evictOldest_eq [OF assms])
qed

lemma length_evictOldest:
  assumes "distinct (map fst T)"
  shows "length (evictOldest T n) = length T - n"
proof -
  have dT: "distinct T" by (rule distinct_keys_pairs [OF assms])
  have "distinct (evictOldest T n)" by (simp add: evictOldest_eq [OF assms] dT)
  then have "length (evictOldest T n) = card (set (evictOldest T n))" by (simp add: distinct_card)
  also have "\<dots> = card (set (drop n (sort_key (\<lambda>e. lastUpdate (snd e)) T)))" by (simp add: set_evictOldest [OF assms])
  also have "\<dots> = length (drop n (sort_key (\<lambda>e. lastUpdate (snd e)) T))" using dT by (simp add: distinct_card)
  finally show ?thesis by simp
qed

lemma evicted_older:
  assumes "distinct (map fst T)" and "p \<in> set T" and "p \<notin> set (evictOldest T n)" and "q \<in> set (evictOldest T n)"
  shows "lastUpdate (snd p) \<le> lastUpdate (snd q)"
proof -
  have d: "distinct (sort_key (\<lambda>e. lastUpdate (snd e)) T)" using distinct_keys_pairs [OF assms(1)] by simp
  have q: "q \<in> set (drop n (sort_key (\<lambda>e. lastUpdate (snd e)) T))" using assms(4) by (simp add: set_evictOldest [OF assms(1)])
  have "p \<notin> set (drop n (sort_key (\<lambda>e. lastUpdate (snd e)) T))" using assms(3) by (simp add: set_evictOldest [OF assms(1)])
  then have p: "p \<in> set (take n (sort_key (\<lambda>e. lastUpdate (snd e)) T))"
    using take_drop_split [OF d, of p n] assms(2) by simp
  have "sorted (map (\<lambda>e. lastUpdate (snd e)) (sort_key (\<lambda>e. lastUpdate (snd e)) T))" by simp
  then have "sorted (map (\<lambda>e. lastUpdate (snd e)) (take n (sort_key (\<lambda>e. lastUpdate (snd e)) T)) @ map (\<lambda>e. lastUpdate (snd e)) (drop n (sort_key (\<lambda>e. lastUpdate (snd e)) T)))"
    by (simp only: map_append [symmetric] append_take_drop_id)
  then show ?thesis using p q by (auto simp: sorted_append)
qed

lemma newest_survives:
  assumes "distinct (map fst T)" and "x \<in> set T" and "n < length T"
    and "\<forall>q\<in>set T. q \<noteq> x \<longrightarrow> lastUpdate (snd q) < lastUpdate (snd x)"
  shows "x \<in> set (evictOldest T n)"
proof (rule ccontr)
  assume out: "x \<notin> set (evictOldest T n)"
  have "length (evictOldest T n) = length T - n" by (rule length_evictOldest [OF assms(1)])
  then have "evictOldest T n \<noteq> []" using assms(3) by auto
  then obtain y where y: "y \<in> set (evictOldest T n)" by (cases "evictOldest T n") auto
  have yT: "y \<in> set T" using y by (simp add: evictOldest_eq [OF assms(1)])
  have "y \<noteq> x" using y out by auto
  then have "lastUpdate (snd y) < lastUpdate (snd x)" using assms(4) yT by simp
  moreover have "lastUpdate (snd x) \<le> lastUpdate (snd y)" by (rule evicted_older [OF assms(1,2) out y])
  ultimately show False by simp
qed

lemma insort_key_snoc:
  "f a \<le> f x \<Longrightarrow> insort_key f a (ys @ [x]) = insort_key f a ys @ [x]"
  by (induction ys) auto

lemma sort_key_snoc_max:
  "\<forall>q\<in>set T. f q \<le> f x \<Longrightarrow> sort_key f (T @ [x]) = sort_key f T @ [x]"
  by (induction T) (auto simp: insort_key_snoc)

lemma last_inserted_survives:
  assumes "distinct (map fst (T @ [x]))" and "n < length (T @ [x])" and "\<forall>q\<in>set T. lastUpdate (snd q) \<le> lastUpdate (snd x)"
  shows "x \<in> set (evictOldest (T @ [x]) n)"
proof -
  have "sort_key (\<lambda>e. lastUpdate (snd e)) (T @ [x]) = sort_key (\<lambda>e. lastUpdate (snd e)) T @ [x]" by (rule sort_key_snoc_max [OF assms(3)])
  moreover have "n \<le> length (sort_key (\<lambda>e. lastUpdate (snd e)) T)" using assms(2) by simp
  ultimately have "x \<in> set (drop n (sort_key (\<lambda>e. lastUpdate (snd e)) (T @ [x])))" by simp
  then show ?thesis by (simp add: set_evictOldest [OF assms(1)])
qed

subsection \<open>The table during update\<close>

lemma set_update_distinct:
  "distinct (map fst al) \<Longrightarrow> set (AList.update k v al) = insert (k, v) {p \<in> set al. fst p \<noteq> k}"
  by (induction al) (auto simp: image_iff)

lemma update_snoc: "k \<notin> fst ` set T \<Longrightarrow> AList.update k v (T @ [(k, w)]) = T @ [(k, v)]"
  by (induction T) auto

lemma length_update_present: "k \<in> fst ` set al \<Longrightarrow> length (AList.update k v al) = length al"
  by (induction al) auto

lemma length_update: "length (AList.update k v al) = length al + (if k \<in> fst ` set al then 0 else 1)"
  by (induction al) auto

text \<open>
  The table that \<^verbatim>\<open>pruneQTable\<close> may see: the old table with the written entry at
  its key, in place or appended.
\<close>

lemma written_table:
  assumes "getOrCreateEntry s k created = (entry, s1)"
  shows "qTable (writeEntry s1 k entry a td now)
           = AList.update k
               (entry\<lparr> qValues := (qValues entry)[a :=
                          fround (toNumber (rd (qValues entry) a) + Num (learningRate (config s)) * td)],
                        visits := visits entry + 1, lastUpdate := now \<rparr>)
               (qTable s)"
proof -
  note g = getOrCreateEntry_cases [OF assms]
  show ?thesis
  proof (cases "k \<in> fst ` set (qTable s)")
    case True
    then show ?thesis using g by (simp add: writeEntry_def)
  next
    case False
    then have "qTable s1 = qTable s @ [(k, entry)]" using g by auto
    then show ?thesis using g False
      by (simp add: writeEntry_def update_snoc update_new_key)
  qed
qed

lemma written_entry:
  assumes "getOrCreateEntry s k created = (entry, s1)"
  shows "visits entry = (case map_of (qTable s) k of None \<Rightarrow> 0 | Some e \<Rightarrow> visits e) \<and>
         qValues entry = getQValues s k"
  using assms by (auto simp: getOrCreateEntry_def getQValues_def Let_def split: option.splits)

lemma pruned_table:
  assumes "distinct (map fst T)"
  shows "evictOldest T n = filter (\<lambda>p. p \<notin> set (take n (sort_key (\<lambda>e. lastUpdate (snd e)) T))) T"
proof -
  have d: "distinct (sort_key (\<lambda>e. lastUpdate (snd e)) T)"
    using distinct_keys_pairs [OF assms] by simp
  have "filter (\<lambda>p. p \<in> set (drop n (sort_key (\<lambda>e. lastUpdate (snd e)) T))) T
          = filter (\<lambda>p. p \<notin> set (take n (sort_key (\<lambda>e. lastUpdate (snd e)) T))) T"
  proof (rule filter_cong [OF refl])
    fix p assume "p \<in> set T"
    then have "p \<in> set (sort_key (\<lambda>e. lastUpdate (snd e)) T)" by simp
    from take_drop_split [OF d this, of n]
    show "(p \<in> set (drop n (sort_key (\<lambda>e. lastUpdate (snd e)) T)))
            = (p \<notin> set (take n (sort_key (\<lambda>e. lastUpdate (snd e)) T)))" by blast
  qed
  then show ?thesis by (simp add: evictOldest_eq [OF assms])
qed

subsection \<open>Ties are evicted in the order of the table\<close>

lemma filter_single:
  "distinct L \<Longrightarrow> k < length L \<Longrightarrow> x \<notin> set L \<Longrightarrow> filter (\<lambda>z. z = x \<or> z = L ! k) L = [L ! k]"
proof (induction L arbitrary: k)
  case Nil
  then show ?case by simp
next
  case (Cons a L)
  show ?case
  proof (cases k)
    case 0
    have "filter (\<lambda>z. z = x \<or> z = a) L = []"
      using Cons.prems by (auto simp: filter_empty_conv)
    then show ?thesis using 0 by simp
  next
    case (Suc k')
    have "a \<noteq> L ! k'" using Cons.prems Suc by auto
    then show ?thesis using Cons.IH [of k'] Cons.prems Suc by auto
  qed
qed

lemma filter_pair:
  "distinct L \<Longrightarrow> i < j \<Longrightarrow> j < length L \<Longrightarrow> filter (\<lambda>z. z = L ! i \<or> z = L ! j) L = [L ! i, L ! j]"
proof (induction L arbitrary: i j)
  case Nil
  then show ?case by simp
next
  case (Cons a L)
  obtain j' where j: "j = Suc j'" using Cons.prems(2) by (cases j) auto
  show ?case
  proof (cases i)
    case 0
    have "filter (\<lambda>z. z = a \<or> z = L ! j') L = [L ! j']"
      by (rule filter_single) (use Cons.prems j in auto)
    then show ?thesis using 0 j by simp
  next
    case (Suc i')
    have "a \<noteq> L ! i'" "a \<noteq> L ! j'" using Cons.prems Suc j by auto
    then show ?thesis using Cons.IH [of i' j'] Cons.prems Suc j by auto
  qed
qed

lemma sorted_ties_in_order:
  assumes "distinct T" and "i < j" and "j < length T" and "f (T ! i) = f (T ! j)"
    and "T ! j \<in> set (take n (sort_key f T))"
  shows "T ! i \<in> set (take n (sort_key f T))"
proof -
  let ?S = "sort_key f T"
  let ?P = "\<lambda>x. f x = f (T ! i)"
  let ?Q = "\<lambda>z. z = T ! i \<or> z = T ! j"
  have dS: "distinct ?S" using assms(1) by simp
  have stab: "filter ?P ?S = filter ?P T" by (rule sort_key_stable)
  have PQ: "filter ?Q (filter ?P L) = filter ?Q L" for L
    using assms(4) by (auto simp: filter_filter intro: filter_cong)
  have QS: "filter ?Q ?S = [T ! i, T ! j]"
    using PQ [of ?S] PQ [of T] stab filter_pair [OF assms(1,2,3)] by simp
  obtain b where b0: "b < length (take n ?S)" "take n ?S ! b = T ! j"
    using assms(5) unfolding in_set_conv_nth by blast
  then have b: "b < length ?S" "?S ! b = T ! j" "b < n" by simp_all
  have iT: "T ! i \<in> set ?S" using assms(2,3) by simp
  then obtain a where a: "a < length ?S" "?S ! a = T ! i"
    unfolding in_set_conv_nth by blast
  have ne: "T ! i \<noteq> T ! j" using assms(1,2,3) by (simp add: nth_eq_iff_index_eq)
  have "a < b"
  proof (rule ccontr)
    assume "\<not> a < b"
    moreover have "a \<noteq> b" using a b ne by auto
    ultimately have ba: "b < a" by simp
    have "filter (\<lambda>z. z = ?S ! b \<or> z = ?S ! a) ?S = [?S ! b, ?S ! a]"
      by (rule filter_pair [OF dS ba a(1)])
    then have "filter (\<lambda>z. z = T ! j \<or> z = T ! i) ?S = [T ! j, T ! i]" by (simp only: a b)
    moreover have "filter (\<lambda>z. z = T ! j \<or> z = T ! i) ?S = filter ?Q ?S"
      by (rule filter_cong) auto
    ultimately show False using QS ne by simp
  qed
  then have "a < n" using b(3) by simp
  then have "a < length (take n ?S)" "take n ?S ! a = T ! i" using a by simp_all
  then show ?thesis unfolding in_set_conv_nth by blast
qed

subsection \<open>The cache and the invariants over a run\<close>

lemma getQValues_cache [simp]:
  "getQValues (s\<lparr> routeCache := c \<rparr>) k = getQValues s k"
  "getQValues (s\<lparr> cacheOrder := order \<rparr>) k = getQValues s k"
  "getQValues (s\<lparr> cacheHits := h \<rparr>) k = getQValues s k"
  "getQValues (s\<lparr> cacheMisses := m \<rparr>) k = getQValues s k"
  by (simp_all add: getQValues_def split: option.split)

lemma perform_keeps_cache:
  "routeCache (fst (perform rnd c st)) = routeCache (fst st) \<and>
   cacheOrder (fst (perform rnd c st)) = cacheOrder (fst st) \<and>
   cacheHits (fst (perform rnd c st)) = cacheHits (fst st) \<and>
   cacheMisses (fst (perform rnd c st)) = cacheMisses (fst st)"
proof (cases st)
  case (Pair s pos)
  show ?thesis
  proof (cases c)
    case (Route t e)
    have "fst (snd (route s t e rnd pos)) = s" by (rule route_state)
    then show ?thesis by (simp add: Pair Route)
  next
    case (Update t action reward nxt created now)
    then show ?thesis using update_keeps_cache [of s t action reward nxt created now] by (simp add: Pair)
  qed (simp_all add: Pair initialize_def reset_def)
qed

lemma fold_perform_keeps_cache:
  "routeCache (fst (fold (perform rnd) calls st)) = routeCache (fst st) \<and>
   cacheOrder (fst (fold (perform rnd) calls st)) = cacheOrder (fst st) \<and>
   cacheHits (fst (fold (perform rnd) calls st)) = cacheHits (fst st) \<and>
   cacheMisses (fst (fold (perform rnd) calls st)) = cacheMisses (fst st)"
proof (induction calls arbitrary: st)
  case Nil
  show ?case by simp
next
  case (Cons c calls)
  show ?case using Cons.IH [of "perform rnd c st"] perform_keeps_cache [of rnd c st] by simp
qed

lemma run_keeps_cache:
  "routeCache (run rnd calls s) = routeCache s \<and> cacheOrder (run rnd calls s) = cacheOrder s \<and>
   cacheHits (run rnd calls s) = cacheHits s \<and> cacheMisses (run rnd calls s) = cacheMisses s"
  using fold_perform_keeps_cache [of rnd calls "(s, 0)"] by (simp add: run_def)








subsection \<open>The example routers\<close>

lemma fround_small [simp]:
  "fround (Num 2) = Num 2" "fround (Num 3) = Num 3" "fround (Num 5) = Num 5"
  using fround_of_int [of 2] fround_of_int [of 3] fround_of_int [of 5] by simp_all

lemma hash_empty: "hashState [] = ''state_0''"
  by (simp add: hashState_def show_int_def show_nat.simps [of 0] digit_char_def)

lemma hash_a: "hashState (utf16 ''a'') = ''state_97''"
  by (simp add: hashState_def utf16_def hashStep_def show_int_def show_nat.simps [of 97] show_nat.simps [of 9] digit_char_def)

lemma hash_b: "hashState (utf16 ''b'') = ''state_98''"
  by (simp add: hashState_def utf16_def hashStep_def show_int_def show_nat.simps [of 98] show_nat.simps [of 9] digit_char_def)

lemma hash_keys_distinct:
  "hashState [] \<noteq> hashState (utf16 ''a'')" "hashState [] \<noteq> hashState (utf16 ''b'')"
  "hashState (utf16 ''a'') \<noteq> hashState (utf16 ''b'')"
  by (simp_all add: hash_empty hash_a hash_b)

lemma exp_bound: "(9999 / 10000 :: real) < 1 / 100 + (99 / 100) * exp (- (1 / 10000))"
proof -
  have "1 + (- (1 / 10000)) \<le> exp (- (1 / 10000 :: real))" by (rule exp_ge_add_one_self)
  then show ?thesis by simp
qed

lemma indexOf_coder: "indexOf ROUTE_NAMES ''coder'' = Some 0"
  by (simp add: ROUTE_NAMES_def)

lemma indexOf_tester: "indexOf ROUTE_NAMES ''tester'' = Some 1"
  by (simp add: ROUTE_NAMES_def)

lemma sample_table:
  "qTable sampleRouter =
     [(hashState sampleTask,
       \<lparr> qValues = [Num 0, Num 3, Num 3, Num 1, Num 0, Num 0, Num 0, Num 0], visits = 2, lastUpdate = 0 \<rparr>)]"
  by (simp add: sampleRouter_def sampleData_def import_def float32Array_def frozenClock_def)

lemma sample_qvs:
  "getQValues sampleRouter (hashState sampleTask) = [Num 0, Num 3, Num 3, Num 1, Num 0, Num 0, Num 0, Num 0]"
  by (simp add: getQValues_def sample_table)

lemma sample_route: "d_route (fst (route sampleRouter sampleTask False rnd pos)) = ''tester''"
  by (simp add: route_def Let_def sample_qvs argmax_def rd_def ROUTE_NAMES_def)

lemma nine_table:
  "qTable nineRouter =
     [(hashState sampleTask,
       \<lparr> qValues = [Num 0, Num 0, Num 0, Num 0, Num 0, Num 0, Num 0, Num 0, Num 5], visits = 1,
         lastUpdate = 0 \<rparr>)]"
  by (simp add: nineRouter_def nineData_def import_def float32Array_def frozenClock_def)

lemma nine_qvs:
  "getQValues nineRouter (hashState sampleTask)
     = [Num 0, Num 0, Num 0, Num 0, Num 0, Num 0, Num 0, Num 0, Num 5]"
  by (simp add: getQValues_def nine_table)

lemma nine_argmax: "argmax [Num 0, Num 0, Num 0, Num 0, Num 0, Num 0, Num 0, Num 0, Num 5] = 8"
  by (simp add: argmax_def)

lemma nine_route: "d_route (fst (route nineRouter sampleTask False rnd pos)) = ''coder''"
  by (simp add: route_def Let_def nine_qvs nine_argmax rd_def ROUTE_NAMES_def)

lemma tiny_table:
  "qTable tinyRouter =
     [(hashState [],
       \<lparr> qValues = [Num 1, Num 0, Num 0, Num 0, Num 0, Num 0, Num 0, Num 0], visits = 1, lastUpdate = 0 \<rparr>)]"
  by (simp add: tinyRouter_def import_def float32Array_def frozenClock_def)

lemma tiny_fields:
  "config tinyRouter = DEFAULT_CONFIG\<lparr> maxStates := 1 \<rparr>" "epsilon tinyRouter = 1"
  "stepCount tinyRouter = 0" "updateCount tinyRouter = 0" "avgTDError tinyRouter = Num 0"
  by (simp_all add: tinyRouter_def)

lemma tiny_entry:
  "getOrCreateEntry tinyRouter (hashState (utf16 ''a'')) 5 =
     (\<lparr> qValues = zeros 8, visits = 0, lastUpdate = 5 \<rparr>,
      tinyRouter\<lparr> qTable := qTable tinyRouter @
         [(hashState (utf16 ''a''), \<lparr> qValues = zeros 8, visits = 0, lastUpdate = 5 \<rparr>)] \<rparr>)"
  using hash_keys_distinct
  by (simp add: getOrCreateEntry_def tiny_table tiny_fields Let_def)

lemma tiny_update:
  "update tinyRouter (utf16 ''a'') ''coder'' (Num 1) None 5 5 = (Num 1, tinyRouterAfter)"
proof -
  have r: "toNumber (rd (zeros 8) 0) = Num 0" by (simp add: zeros8)
  have t: "targetQ s1 (Num 1) None = Num 1" for s1 by (simp add: targetQ_def)
  have u: "update tinyRouter (utf16 ''a'') ''coder'' (Num 1) None 5 5 =
      (Num 1 - Num 0,
        recordTDError (pruneIfNeeded (decayExploration
          (writeEntry (tinyRouter\<lparr> qTable := qTable tinyRouter @
         [(hashState (utf16 ''a''), \<lparr> qValues = zeros 8, visits = 0, lastUpdate = 5 \<rparr>)] \<rparr>)
             (hashState (utf16 ''a'')) \<lparr> qValues = zeros 8, visits = 0, lastUpdate = 5 \<rparr> 0 (Num 1 - Num 0) 5)))
          (Num 1 - Num 0))"
    using update_known [OF indexOf_coder tiny_entry, of "Num 1" None 5] by (simp add: r t)
  show ?thesis
    unfolding u using hash_keys_distinct
    by (simp add: recordTDError_def pruneIfNeeded_def pruneQTable_def decayExploration_def writeEntry_def
          decayedEpsilon_def evictOldest_def tiny_table tiny_fields tinyRouterAfter_def)
qed

lemma small_table:
  "qTable smallRouter =
     [(hashState [],
       \<lparr> qValues = [Num 1, Num 0, Num 0, Num 0, Num 0, Num 0, Num 0, Num 0], visits = 1, lastUpdate = 0 \<rparr>),
      (hashState (utf16 ''a''),
       \<lparr> qValues = [Num 0, Num 1, Num 0, Num 0, Num 0, Num 0, Num 0, Num 0], visits = 1, lastUpdate = 1 \<rparr>)]"
  using hash_keys_distinct
  by (simp add: smallRouter_def import_def float32Array_def tickingClock_def)

lemma small_fields: "config smallRouter = DEFAULT_CONFIG\<lparr> maxStates := 2 \<rparr>"
  by (simp add: smallRouter_def)

lemma quick_fields [simp]:
  "explorationInitial quickDecayConfig = 1" "explorationFinal quickDecayConfig = 1 / 100"
  "explorationDecay quickDecayConfig = 1" "learningRate quickDecayConfig = 1 / 10"
  "numActions quickDecayConfig = 8" "maxStates quickDecayConfig = 10000"
  by (simp_all add: quickDecayConfig_def)


lemma trained_table:
  "qTable trainedRouter =
     [(hashState sampleTask,
       \<lparr> qValues = [Num 0, fround (Num (1 / 10)), Num 0, Num 0, Num 0, Num 0, Num 0, Num 0],
         visits = 1, lastUpdate = 0 \<rparr>)]"
proof -
  have g: "getOrCreateEntry (newRouter quickDecayConfig) (hashState sampleTask) 0 =
     (\<lparr> qValues = zeros 8, visits = 0, lastUpdate = 0 \<rparr>,
      (newRouter quickDecayConfig)\<lparr> qTable :=
         [(hashState sampleTask, \<lparr> qValues = zeros 8, visits = 0, lastUpdate = 0 \<rparr>)] \<rparr>)"
    by (simp add: getOrCreateEntry_def Let_def)
  have r: "toNumber (rd (zeros 8) 1) = Num 0" by (simp add: zeros8)
  have t: "targetQ s1 (Num 1) None = Num 1" for s1 by (simp add: targetQ_def)
  show ?thesis
    unfolding trainedRouter_def update_known [OF indexOf_tester g]
    by (simp add: r t recordTDError_def pruneIfNeeded_def decayExploration_def writeEntry_def zeros8)
qed



lemma restored_table: "qTable restoredRouter = qTable trainedRouter"
proof -
  have d: "distinct (map fst (qTable trainedRouter))" by (simp add: trained_table)
  show ?thesis
    by (simp add: restoredRouter_def export_distinct [OF d] import_def trained_table float32Array_def
          fround_idem frozenClock_def)
qed

subsection \<open>Export followed by import\<close>




section \<open>Lemmas about the attention kernels\<close>

lemma zeros2: "zeros 2 = [Num 0, Num 0]" "zeros (Suc (Suc 0)) = [Num 0, Num 0]"
  by (simp_all add: zeros_def eval_nat_numeral)

lemma ragged_valid: "validateInputs raggedQueries raggedKeys raggedValues = Inr ()"
  by (simp add: validateInputs_def raggedQueries_def raggedKeys_def raggedValues_def)

lemma ragged_dot: "dotProduct [Num 1, Num 1] [Num 1, Num 1] = Num 2"
proof -
  have u: "dotUnrolled [Num 1, Num 1] [Num 1, Num 1] 2 0 (Num 0) = (0, Num 0)"
    by (subst dotUnrolled.simps) simp
  have r2: "dotRemaining [Num 1, Num 1] [Num 1, Num 1] 2 (Suc (Suc 0)) (Num 2) = Num 2"
    by (subst dotRemaining.simps) simp
  have r1: "dotRemaining [Num 1, Num 1] [Num 1, Num 1] 2 (Suc 0) (Num 1) = Num 2"
    by (subst dotRemaining.simps) (simp add: r2)
  have r0: "dotRemaining [Num 1, Num 1] [Num 1, Num 1] 2 0 (Num 0) = Num 2"
    by (subst dotRemaining.simps) (simp add: r1)
  have l: "min (length [Num 1, Num 1]) (length [Num 1, Num 1]) = 2" by simp
  show ?thesis unfolding dotProduct_def Let_def l u by (simp add: r0)
qed

lemma ragged_scale: "scaleOf defaultAttentionConfig 2 = Num (1 / sqrt 2)"
  by (simp add: scaleOf_def defaultAttentionConfig_def)

lemma ragged_score: "\<exists>y. fround (Num (2 / sqrt 2)) = Num y"
proof -
  have "1 \<le> sqrt 2" by simp
  then have "2 / sqrt 2 \<le> 2" by (simp add: divide_le_eq)
  then have "\<bar>2 * (1 / sqrt 2)\<bar> \<le> 2" by simp
  also have "(2::real) < 2 ^ 127" by simp
  finally show ?thesis using fround_finite [of "2 / sqrt 2"] by simp
qed

lemma softmax_pair: "softmax [Num y, Num y] = [Num (1 / 2), Num (1 / 2)]"
  by (simp add: softmax_def Let_def)

lemma ragged_sum:
  "weightedSum [Num (1 / 2), Num (1 / 2)] raggedValues 0 2 (zeros 2, [])
     = Inr ([Num 1, NaN], [(1, 1)])"
  by (simp add: raggedValues_def zeros2 eval_nat_numeral rd_def)

lemma ragged_naive:
  "naiveAttention defaultAttentionConfig raggedQueries raggedKeys raggedValues
     = Inr ([[Num 1, NaN]], [(1, 1)])"
proof -
  obtain y where y: "fround (Num (2 / sqrt 2)) = Num y" using ragged_score by blast
  have d: "dimensionsOf defaultAttentionConfig raggedQueries = 2"
    by (simp add: dimensionsOf_def raggedQueries_def)
  have s: "scoreRow [Num 1, Num 1] raggedKeys (Num (1 / sqrt 2)) = [Num y, Num y]"
    by (simp add: scoreRow_def raggedKeys_def ragged_dot y)
  have "naiveRow [Num 1, Num 1] raggedKeys raggedValues 2 (Num (1 / sqrt 2)) []
          = Inr ([Num 1, NaN], [(1, 1)])"
    unfolding naiveRow_def s softmax_pair by (rule ragged_sum)
  then show ?thesis
    by (simp add: naiveAttention_def d ragged_scale) (simp add: raggedQueries_def)
qed

lemma ragged_attention:
  "attention defaultAttentionConfig raggedQueries raggedKeys raggedValues
     = Some (Inr ([[Num 1, NaN]], [(1, 1)]))"
proof -
  have s: "\<not> length raggedQueries * length raggedKeys > 1024"
    by (simp add: raggedQueries_def raggedKeys_def)
  show ?thesis unfolding attention_def ragged_valid using s by (simp add: ragged_naive)
qed

text \<open>What \<^verbatim>\<open>validateInputs\<close> accepts is decided by the three arrays and their first vectors.\<close>

lemma validateInputs_accepts_iff:
  "validateInputs queries keys vals = Inr () \<longleftrightarrow>
     queries \<noteq> [] \<and> keys \<noteq> [] \<and> vals \<noteq> [] \<and> length keys = length vals \<and>
     length (hd queries) = length (hd keys) \<and> length (hd keys) = length (hd vals)"
  by (cases queries; cases keys; cases vals) (auto simp: validateInputs_def)

text \<open>The loops of \<^verbatim>\<open>dotProduct\<close> read only indices below \<open>len\<close>.\<close>

lemma dotUnrolled_cong:
  assumes "\<forall>k<len. rd a k = rd a' k \<and> rd b k = rd b' k"
  shows "dotUnrolled a b len i acc = dotUnrolled a' b' len i acc"
proof (induction "len - i" arbitrary: i acc rule: less_induct)
  case less
  show ?case
  proof (cases "i + 4 \<le> len")
    case True
    have r: "rd a i = rd a' i" "rd b i = rd b' i" "rd a (i + 1) = rd a' (i + 1)" "rd b (i + 1) = rd b' (i + 1)"
      "rd a (i + 2) = rd a' (i + 2)" "rd b (i + 2) = rd b' (i + 2)"
      "rd a (i + 3) = rd a' (i + 3)" "rd b (i + 3) = rd b' (i + 3)"
      using assms True by simp_all
    have "len - (i + 4) < len - i" using True by simp
    from less [OF this] show ?thesis
      by (subst dotUnrolled.simps, subst (2) dotUnrolled.simps) (simp only: True r if_True)
  next
    case False
    then show ?thesis by (subst dotUnrolled.simps, subst (2) dotUnrolled.simps) simp
  qed
qed

lemma dotRemaining_cong:
  assumes "\<forall>k<len. rd a k = rd a' k \<and> rd b k = rd b' k"
  shows "dotRemaining a b len i acc = dotRemaining a' b' len i acc"
proof (induction "len - i" arbitrary: i acc rule: less_induct)
  case less
  show ?case
  proof (cases "i < len")
    case True
    have r: "rd a i = rd a' i" "rd b i = rd b' i" using assms True by simp_all
    have "len - (i + 1) < len - i" using True by simp
    from less [OF this] show ?thesis
      by (subst dotRemaining.simps, subst (2) dotRemaining.simps) (simp only: True r if_True)
  next
    case False
    then show ?thesis by (subst dotRemaining.simps, subst (2) dotRemaining.simps) simp
  qed
qed

lemma dotProduct_prefix:
  "dotProduct a b = dotProduct (take (min (length a) (length b)) a) (take (min (length a) (length b)) b)"
proof -
  let ?n = "min (length a) (length b)"
  have r: "\<forall>k<?n. rd a k = rd (take ?n a) k \<and> rd b k = rd (take ?n b) k"
    by (simp add: rd_def)
  have l: "min (length (take ?n a)) (length (take ?n b)) = ?n" by simp
  have u: "dotUnrolled a b ?n 0 (Num 0) = dotUnrolled (take ?n a) (take ?n b) ?n 0 (Num 0)"
    by (rule dotUnrolled_cong [OF r])
  obtain i acc where p: "dotUnrolled a b ?n 0 (Num 0) = (i, acc)"
    by (cases "dotUnrolled a b ?n 0 (Num 0)")
  have "dotRemaining a b ?n i acc = dotRemaining (take ?n a) (take ?n b) ?n i acc"
    by (rule dotRemaining_cong [OF r])
  then show ?thesis
    unfolding dotProduct_def Let_def l u [symmetric] p by simp
qed

lemma ragged_block:
  "blockAttention defaultAttentionConfig raggedQueries raggedKeys raggedValues 1
     = Some (Inr ([[Num 1, NaN]], [(1, 1)]))"
proof -
  obtain y where y: "fround (Num (2 / sqrt 2)) = Num y" using ragged_score by blast
  have yy: "fround (Num y) = Num y" using fround_idem [of "Num (2 / sqrt 2)"] by (simp add: y)
  let ?sc = "Num (1 / sqrt 2)"
  let ?cfg = defaultAttentionConfig
  have d: "dimensionsOf ?cfg raggedQueries = 2" by (simp add: dimensionsOf_def raggedQueries_def)
  have lq: "length raggedQueries = 1" and lk: "length raggedKeys = 2"
    by (simp_all add: raggedQueries_def raggedKeys_def)
  have s0: "computeBlockScores raggedQueries raggedKeys 0 1 0 1 ?sc = [[Num y]]"
    by (simp add: computeBlockScores_def scoreRow_def raggedQueries_def raggedKeys_def ragged_dot y)
  have s1: "computeBlockScores raggedQueries raggedKeys 0 1 1 2 ?sc = [[Num y]]"
    by (simp add: computeBlockScores_def scoreRow_def raggedQueries_def raggedKeys_def ragged_dot y)
  let ?st0 = "\<lparr> outputRows = [[Num 0, Num 0]], maxScores = [NegInf], sumExp = [Num 0] \<rparr>"
  let ?st1 = "\<lparr> outputRows = [[Num 1, Num 1]], maxScores = [Num y], sumExp = [Num 1] \<rparr>"
  let ?st2 = "\<lparr> outputRows = [[Num 2, NaN]], maxScores = [Num y], sumExp = [Num 2] \<rparr>"
  have i0: "initialState 1 2 = ?st0"
    by (simp add: initialState_def zeros_def eval_nat_numeral)
  have a0: "onlineSoftmaxAccumulate ?cfg [[Num y]] raggedValues (?st0, []) 0 0 = Inr (?st1, [])"
    by (simp add: onlineSoftmaxAccumulate_def rowStep_def Let_def Math_max2_def raggedValues_def
          rd_def yy)
  have a1: "onlineSoftmaxAccumulate ?cfg [[Num y]] raggedValues (?st1, []) 0 1 = Inr (?st2, [(1, 1)])"
    by (simp add: onlineSoftmaxAccumulate_def rowStep_def Let_def Math_max2_def raggedValues_def
          rd_def yy)
  have qe: "queryLoop ?cfg raggedQueries raggedKeys raggedValues 1 ?sc kStart kEnd st 1 = Inr st"
    for kStart kEnd st
    by (subst queryLoop.simps) (simp add: lq del: One_nat_def)
  have q0: "queryLoop ?cfg raggedQueries raggedKeys raggedValues 1 ?sc 0 1 (?st0, []) 0 = Inr (?st1, [])"
    by (subst queryLoop.simps) (simp add: lq s0 a0 qe del: One_nat_def)
  have q1: "queryLoop ?cfg raggedQueries raggedKeys raggedValues 1 ?sc 1 2 (?st1, []) 0 = Inr (?st2, [(1, 1)])"
    by (subst queryLoop.simps) (simp add: lq s1 a1 qe del: One_nat_def)
  have k2: "keyLoop ?cfg raggedQueries raggedKeys raggedValues 1 ?sc (?st2, [(1, 1)]) 2 = Inr (?st2, [(1, 1)])"
    by (subst keyLoop.simps) (simp add: lk del: One_nat_def)
  have k1: "keyLoop ?cfg raggedQueries raggedKeys raggedValues 1 ?sc (?st1, []) 1 = Inr (?st2, [(1, 1)])"
    by (subst keyLoop.simps) (simp add: lk q1 k2 del: One_nat_def)
  have k0: "keyLoop ?cfg raggedQueries raggedKeys raggedValues 1 ?sc (?st0, []) 0 = Inr (?st2, [(1, 1)])"
    by (subst keyLoop.simps) (simp add: lk q0 k1 del: One_nat_def)
  show ?thesis
    by (simp add: blockAttention_def d lq ragged_scale i0 k0 normalizeRow_def del: One_nat_def)
qed


section \<open>Claims about the router\<close>

text \<open>
  Claim C7. For every task text, reward, next text and clock reading, and every action
  string that is not one of the route labels, \<^verbatim>\<open>update\<close> returns 0 and the router after
  the call is the router before it: Q-table, epsilon, step count, update count,
  average TD error, replay buffer and cache are all as they were.
\<close>

theorem update_unknown_action:
  "action \<notin> set ROUTE_NAMES \<Longrightarrow>
   update s taskContext action reward nextContext created now = (Num 0, s)"
  by (simp add: update_def indexOf_notin)

theorem update_unknown_action_witness:
  "''pilot'' \<notin> set ROUTE_NAMES \<and>
   update (newRouter DEFAULT_CONFIG) (utf16 ''fix login bug'') ''pilot'' (Num 1) None 0 0
     = (Num 0, newRouter DEFAULT_CONFIG)"
proof -
  have h: "''pilot'' \<notin> set ROUTE_NAMES" by (simp add: ROUTE_NAMES_def)
  show ?thesis using h update_unknown_action [OF h] by simp
qed

text \<open>
  Claim C9. \<^verbatim>\<open>route\<close> is a pure query: for every task text, explore flag and random
  source the router after the call is the router before it; a state key without a
  Q-table entry is read as \<^verbatim>\<open>numActions\<close> zeros and no entry is created; and after any
  sequence of route calls the router, hence the size of its Q-table, is unchanged.
\<close>

theorem route_pure:
  "fst (snd (route s t e rnd pos)) = s \<and>
   (map_of (qTable s) (hashState t) = None \<longrightarrow>
      d_qValues (fst (route s t e rnd pos)) = replicate (numActions (config s)) (Num 0)) \<and>
   fst (route_many s calls rnd pos) = s"
  by (simp add: route_state route_many_state) (simp add: route_def Let_def getQValues_def zeros_def)

theorem route_pure_witness:
  "map_of (qTable (newRouter DEFAULT_CONFIG)) (hashState sampleTask) = None \<and>
   d_qValues (fst (route (newRouter DEFAULT_CONFIG) sampleTask True no_random 0)) = replicate 8 (Num 0) \<and>
   qTable (fst (snd (route (newRouter DEFAULT_CONFIG) sampleTask True no_random 0))) = [] \<and>
   qTable (fst (route_many (newRouter DEFAULT_CONFIG)
                  [(sampleTask, True), (sampleTask, False), ([], True)] no_random 0)) = []"
  using route_pure [of "newRouter DEFAULT_CONFIG" sampleTask True no_random 0
                       "[(sampleTask, True), (sampleTask, False), ([], True)]"]
  by simp

text \<open>
  Claim C4 is right about the documented behaviour and the code departs from it. The
  configuration declares \<^verbatim>\<open>explorationDecayType\<close> with the default \<^verbatim>\<open>'exponential'\<close>, and
  the header of the module promises exponential annealing, but \<^verbatim>\<open>update\<close> never reads
  the field: it always applies the linear law. On a fresh router with the default
  configuration one update leaves epsilon at \<open>1 - 1/10000\<close>, while the exponential
  law of the specification gives \<open>0.01 + 0.99 * exp (-1/10000)\<close>, which is larger.
\<close>

theorem update_epsilon_default_is_linear:
  "(epsilon \<circ> snd) (update (newRouter DEFAULT_CONFIG) sampleTask ''coder'' (Num 1) None 0 0)
     = 9999 / 10000 \<and>
   explorationDecayType (config (newRouter DEFAULT_CONFIG)) = Exponential \<and>
   spec_epsilon DEFAULT_CONFIG 1 = 1 / 100 + (99 / 100) * exp (- (1 / 10000)) \<and>
   9999 / 10000 < spec_epsilon DEFAULT_CONFIG 1"
proof -
  have s: "spec_epsilon DEFAULT_CONFIG 1 = 1 / 100 + (99 / 100) * exp (- (1 / 10000))"
    by (simp add: spec_epsilon_def)
  have "''coder'' \<in> set ROUTE_NAMES" by (simp add: ROUTE_NAMES_def)
  from update_epsilon_linear [OF this, of "newRouter DEFAULT_CONFIG" sampleTask "Num 1" None 0 0]
  have "epsilon (snd (update (newRouter DEFAULT_CONFIG) sampleTask ''coder'' (Num 1) None 0 0)) = 9999 / 10000"
    by (simp add: decayedEpsilon_def)
  then show ?thesis using s exp_bound by simp
qed

text \<open>
  Claim C2, as stated, fails in its second part. \<open>nineRouter\<close> is a new router that
  imported one row of nine values for the sample task; \<^verbatim>\<open>import\<close> accepts it. The
  maximum of the row, 5, stands at index 8, where there is no label:
  \<^verbatim>\<open>route(text, false)\<close> returns \<^verbatim>\<open>coder\<close>, the label of index 0, whose value 0 is not
  the maximum.
\<close>

theorem route_beyond_labels_counterexample:
  "nineRouter = import (newRouter DEFAULT_CONFIG) nineData frozenClock \<and>
   map_of (qTable nineRouter) (hashState sampleTask)
     = Some \<lparr> qValues = [Num 0, Num 0, Num 0, Num 0, Num 0, Num 0, Num 0, Num 0, Num 5], visits = 1,
              lastUpdate = 0 \<rparr> \<and>
   d_route (fst (route nineRouter sampleTask False no_random 0)) = ''coder'' \<and>
   d_qValues (fst (route nineRouter sampleTask False no_random 0))
     = [Num 0, Num 0, Num 0, Num 0, Num 0, Num 0, Num 0, Num 0, Num 5] \<and>
   ROUTE_NAMES ! 0 = ''coder'' \<and>
   Num 0 < Num 5"
proof -
  have q: "d_qValues (fst (route nineRouter sampleTask False no_random 0))
             = [Num 0, Num 0, Num 0, Num 0, Num 0, Num 0, Num 0, Num 0, Num 5]"
    using route_exploit_fields [of nineRouter sampleTask no_random 0] by (simp add: nine_qvs)
  have n: "nineRouter = import (newRouter DEFAULT_CONFIG) nineData frozenClock"
    by (simp add: nineRouter_def)
  have l: "ROUTE_NAMES ! 0 = ''coder''" by (simp add: ROUTE_NAMES_def)
  show ?thesis using q n l by (simp add: nine_route nine_table)
qed

text \<open>
  Claim C2, amended. For every router, task text, random source and position,
  \<^verbatim>\<open>route(text, false)\<close> draws no random number, leaves the router as it is, and returns
  a decision that depends on neither the random source nor the position; the decision
  is not marked as explored and carries the row of the state key: the values of its
  Q-table entry, or \<^verbatim>\<open>numActions\<close> zeros when the key has no entry. The selected route
  is the label at an index \<open>i\<close>, or \<^verbatim>\<open>coder\<close> when \<open>i\<close> is beyond the labels. When the
  row is empty or starts with \<^verbatim>\<open>NaN\<close>, \<open>i\<close> is 0. Otherwise \<open>i\<close> is an index of the row
  whose value is a number that no value of the row exceeds, and every value before it
  is strictly smaller or \<^verbatim>\<open>NaN\<close>: the lowest index of the maximum.
\<close>

theorem route_exploit_argmax:
  assumes "row = (case map_of (qTable s) (hashState t) of
                    None \<Rightarrow> replicate (numActions (config s)) (Num 0)
                  | Some entry \<Rightarrow> qValues entry)"
  shows "fst (route s t False rnd pos) = fst (route s t False rnd' pos') \<and>
         snd (route s t False rnd pos) = (s, pos) \<and>
         d_explored (fst (route s t False rnd pos)) = False \<and>
         d_qValues (fst (route s t False rnd pos)) = row \<and>
         (\<exists>i. d_route (fst (route s t False rnd pos))
                 = (if i < length ROUTE_NAMES then ROUTE_NAMES ! i else ''coder'') \<and>
              (if row = [] \<or> row ! 0 = NaN then i = 0
               else i < length row \<and> row ! i \<noteq> NaN \<and>
                    (\<forall>j<length row. \<not> row ! i < row ! j) \<and>
                    (\<forall>j<i. row ! j < row ! i \<or> row ! j = NaN)))"
proof -
  have row: "getQValues s (hashState t) = row"
    by (simp add: assms getQValues_def zeros_def split: option.split)
  let ?i = "argmax row"
  have r: "d_route (fst (route s t False rnd pos))
             = (if ?i < length ROUTE_NAMES then ROUTE_NAMES ! ?i else ''coder'')"
    using route_exploit_fields [of s t rnd pos] by (simp add: row rd_def)
  have c: "if row = [] \<or> row ! 0 = NaN then ?i = 0
           else ?i < length row \<and> row ! ?i \<noteq> NaN \<and>
                (\<forall>j<length row. \<not> row ! ?i < row ! j) \<and>
                (\<forall>j<?i. row ! j < row ! ?i \<or> row ! j = NaN)"
  proof (cases "row = [] \<or> row ! 0 = NaN")
    case True
    then show ?thesis using argmax_degenerate [of row] by simp
  next
    case False
    then show ?thesis using argmax_spec [of row] by simp
  qed
  have e: "\<exists>i. d_route (fst (route s t False rnd pos))
                 = (if i < length ROUTE_NAMES then ROUTE_NAMES ! i else ''coder'') \<and>
              (if row = [] \<or> row ! 0 = NaN then i = 0
               else i < length row \<and> row ! i \<noteq> NaN \<and>
                    (\<forall>j<length row. \<not> row ! i < row ! j) \<and>
                    (\<forall>j<i. row ! j < row ! i \<or> row ! j = NaN))"
    using r c by blast
  have d: "fst (route s t False rnd pos) = fst (route s t False rnd' pos')"
    by (rule route_exploit_from_qvs) simp
  have p: "snd (route s t False rnd pos) = (s, pos)"
    using route_exploit_fields [of s t rnd pos] route_state [of s t False rnd pos]
    by (metis prod.collapse)
  show ?thesis using d p e route_exploit_fields [of s t rnd pos] by (simp add: row)
qed

theorem route_exploit_argmax_witness:
  "map_of (qTable sampleRouter) (hashState sampleTask)
     = Some \<lparr> qValues = [Num 0, Num 3, Num 3, Num 1, Num 0, Num 0, Num 0, Num 0], visits = 2,
              lastUpdate = 0 \<rparr> \<and>
   d_qValues (fst (route sampleRouter sampleTask False no_random 0))
     = [Num 0, Num 3, Num 3, Num 1, Num 0, Num 0, Num 0, Num 0] \<and>
   d_route (fst (route sampleRouter sampleTask False no_random 0)) = ''tester'' \<and>
   snd (route sampleRouter sampleTask False no_random 0) = (sampleRouter, 0)"
proof -
  have a: "[Num 0, Num 3, Num 3, Num 1, Num 0, Num 0, Num 0, Num 0]
             = (case map_of (qTable sampleRouter) (hashState sampleTask) of
                  None \<Rightarrow> replicate (numActions (config sampleRouter)) (Num 0)
                | Some entry \<Rightarrow> qValues entry)"
    by (simp add: sample_table)
  from route_exploit_argmax [OF a, of no_random 0 no_random 0]
  show ?thesis by (simp add: sample_route sample_table)
qed

text \<open>
  Claim C3, as stated, fails. \<^verbatim>\<open>import\<close> has no version to check and checks no row
  length: given an entry with three values, where the router has eight routes, it
  does not fail. It discards the table of \<open>sampleRouter\<close> and installs the short row.
\<close>

theorem import_unvalidated_counterexample:
  "length (p_qValues shortEntry) \<noteq> numActions (config sampleRouter) \<and>
   length (p_qValues shortEntry) \<noteq> length ROUTE_NAMES \<and>
   import sampleRouter [(''state_0'', shortEntry)] frozenClock \<noteq> sampleRouter \<and>
   qTable (import sampleRouter [(''state_0'', shortEntry)] frozenClock)
     = [(''state_0'', \<lparr> qValues = [Num 1, Num 2, Num 3], visits = 1, lastUpdate = 0 \<rparr>)] \<and>
   qTable sampleRouter
     = [(hashState sampleTask,
         \<lparr> qValues = [Num 0, Num 3, Num 3, Num 1, Num 0, Num 0, Num 0, Num 0], visits = 2, lastUpdate = 0 \<rparr>)]"
proof -
  have t: "qTable (import sampleRouter [(''state_0'', shortEntry)] frozenClock)
     = [(''state_0'', \<lparr> qValues = [Num 1, Num 2, Num 3], visits = 1, lastUpdate = 0 \<rparr>)]"
    by (simp add: import_def shortEntry_def float32Array_def frozenClock_def)
  have n: "import sampleRouter [(''state_0'', shortEntry)] frozenClock \<noteq> sampleRouter"
  proof
    assume "import sampleRouter [(''state_0'', shortEntry)] frozenClock = sampleRouter"
    then have "qTable (import sampleRouter [(''state_0'', shortEntry)] frozenClock) = qTable sampleRouter"
      by simp
    then show False by (simp add: t sample_table)
  qed
  show ?thesis
    by (simp add: t n sample_table) (simp add: sampleRouter_def shortEntry_def ROUTE_NAMES_def)
qed

text \<open>
  Claim C3, amended. \<^verbatim>\<open>import\<close> never fails and validates nothing. For every router
  and every object (its keys distinct, as the keys of an object are), the Q-table
  becomes exactly the entries of the object, in their order, each with its values
  rounded to single precision, whatever their number, its visit count, and as
  \<^verbatim>\<open>lastUpdate\<close> the clock reading taken when that entry is stored. Every other field
  of the router (epsilon, step count, update count, average TD error, replay buffer,
  cache) is left as it was.
\<close>

theorem import_replaces_table:
  "distinct (map fst data) \<Longrightarrow>
   import s data clock =
     s\<lparr> qTable := map (\<lambda>(i, key, entry).
                        (key, \<lparr> qValues = map fround (p_qValues entry), visits = p_visits entry,
                                lastUpdate = clock i \<rparr>)) (enumerate 0 data) \<rparr>"
  using import_distinct [of data s clock] by (simp add: float32Array_def)

theorem import_replaces_table_witness:
  "distinct (map fst [(''state_0'', shortEntry)]) \<and>
   import sampleRouter [(''state_0'', shortEntry)] tickingClock =
     sampleRouter\<lparr> qTable := [(''state_0'', \<lparr> qValues = [Num 1, Num 2, Num 3], visits = 1, lastUpdate = 0 \<rparr>)] \<rparr>"
  using import_replaces_table [of "[(''state_0'', shortEntry)]" sampleRouter tickingClock]
  by (simp add: shortEntry_def tickingClock_def)

text \<open>
  Claim C5, as stated, fails in its last part. \<open>tinyRouter\<close> has \<^verbatim>\<open>maxStates = 1\<close> and
  one entry. An update for a new task makes the table hold two entries, which exceeds
  the capacity; \<^verbatim>\<open>pruneQTable\<close> removes \<open>2 - floor (0.8 * 1) = 2\<close> entries, and the entry
  that this very call created and updated is among them: the table is empty after the
  call.
\<close>

theorem update_evicts_updated_counterexample:
  "''coder'' \<in> set ROUTE_NAMES \<and>
   maxStates (config tinyRouter) = 1 \<and>
   length (qTable tinyRouter) = 1 \<and>
   map_of (qTable tinyRouter) (hashState (utf16 ''a'')) = None \<and>
   update tinyRouter (utf16 ''a'') ''coder'' (Num 1) None 5 5 = (Num 1, tinyRouterAfter) \<and>
   qTable tinyRouterAfter = [] \<and>
   map_of (qTable tinyRouterAfter) (hashState (utf16 ''a'')) = None"
  using hash_keys_distinct
  by (simp add: tiny_update tiny_table tiny_fields) (simp add: ROUTE_NAMES_def tinyRouterAfter_def)

text \<open>
  Claim C5, amended. Consider any update with a known action on a router whose table
  holds each key once, where the table exceeds \<^verbatim>\<open>maxStates\<close> once the entry of the
  state key is there. The call writes the entry of the state key (in place, or
  appended when the key is new) with the clock reading \<open>now\<close> as \<^verbatim>\<open>lastUpdate\<close>, its
  visit count incremented, and the rounded new value at the index of the action.
  Pruning then sorts the entries of that table by \<^verbatim>\<open>lastUpdate\<close> ascending, stably,
  and deletes the first ones until \<open>floor (0.8 * maxStates)\<close> remain. So after the call
  the table is the written table without the evicted entries, in its order; it has
  exactly \<open>floor (0.8 * maxStates)\<close> entries, which is at most \<^verbatim>\<open>maxStates\<close>; every
  evicted entry, the written one included, is no more recent than every survivor; and
  of two entries with the same \<^verbatim>\<open>lastUpdate\<close> the later one in the table survives
  whenever the earlier one does. The written entry is not protected: it survives
  exactly when it is not among the evicted ones, which is the case if
  \<open>floor (0.8 * maxStates) \<ge> 1\<close> and either every other entry is strictly older than
  \<open>now\<close>, or the call created the entry and no entry is more recent than \<open>now\<close>.
\<close>

theorem update_prunes_oldest:
  assumes "action \<in> set ROUTE_NAMES"
    and "distinct (map fst (qTable s))"
    and "maxStates (config s) < length (qTable s) + (if hashState t \<in> fst ` set (qTable s) then 0 else 1)"
    and "s' = snd (update s t action reward next created now)"
    and "td = fst (update s t action reward next created now)"
    and "m = maxStates (config s) * 4 div 5"
    and "row = (case map_of (qTable s) (hashState t) of
                  None \<Rightarrow> replicate (numActions (config s)) (Num 0)
                | Some entry \<Rightarrow> qValues entry)"
  shows "\<exists>written a T evicted.
           indexOf ROUTE_NAMES action = Some a \<and>
           qValues written = row[a := fround (toNumber (rd row a) + Num (learningRate (config s)) * td)] \<and>
           visits written = (case map_of (qTable s) (hashState t) of None \<Rightarrow> 1 | Some e \<Rightarrow> visits e + 1) \<and>
           lastUpdate written = now \<and>
           T = AList.update (hashState t) written (qTable s) \<and>
           evicted = take (length T - m) (sort_key (\<lambda>p. lastUpdate (snd p)) T) \<and>
           qTable s' = filter (\<lambda>p. p \<notin> set evicted) T \<and>
           length (qTable s') = m \<and> m \<le> maxStates (config s) \<and>
           (\<forall>p\<in>set evicted. \<forall>q\<in>set (qTable s'). lastUpdate (snd p) \<le> lastUpdate (snd q)) \<and>
           (\<forall>i j. i < j \<and> j < length T \<and> lastUpdate (snd (T ! i)) = lastUpdate (snd (T ! j)) \<and>
                  T ! i \<in> set (qTable s') \<longrightarrow> T ! j \<in> set (qTable s')) \<and>
           (map_of (qTable s') (hashState t) = Some written \<longleftrightarrow> (hashState t, written) \<notin> set evicted) \<and>
           (1 \<le> m \<and>
            ((\<forall>p\<in>set (qTable s). fst p \<noteq> hashState t \<longrightarrow> lastUpdate (snd p) < now) \<or>
             (hashState t \<notin> fst ` set (qTable s) \<and> (\<forall>p\<in>set (qTable s). lastUpdate (snd p) \<le> now)))
            \<longrightarrow> map_of (qTable s') (hashState t) = Some written)"
proof -
  let ?k = "hashState t"
  let ?f = "\<lambda>p::string \<times> QEntry. lastUpdate (snd p)"
  obtain a entry s1 td' where
    ia: "indexOf ROUTE_NAMES action = Some a" and
    g: "getOrCreateEntry s ?k created = (entry, s1)" and
    u: "update s t action reward next created now =
          (td', recordTDError (pruneIfNeeded (decayExploration (writeEntry s1 ?k entry a td' now))) td')"
    using assms(1) by (rule update_cases)
  have td: "td' = td" using u assms(5) by simp
  define written where "written = entry\<lparr> qValues := (qValues entry)[a :=
                          fround (toNumber (rd (qValues entry) a) + Num (learningRate (config s)) * td)],
                        visits := visits entry + 1, lastUpdate := now \<rparr>"
  define T where "T = AList.update ?k written (qTable s)"
  define evicted where "evicted = take (length T - m) (sort_key ?f T)"
  have we: "visits entry = (case map_of (qTable s) ?k of None \<Rightarrow> 0 | Some e \<Rightarrow> visits e)"
    and qe: "qValues entry = row"
    using written_entry [OF g] by (simp_all add: assms(7) getQValues_def zeros_def split: option.split)
  have w1: "qValues written = row[a := fround (toNumber (rd row a) + Num (learningRate (config s)) * td)]"
    by (simp add: written_def qe)
  have w2: "visits written = (case map_of (qTable s) ?k of None \<Rightarrow> 1 | Some e \<Rightarrow> visits e + 1)"
    by (simp add: written_def we split: option.split)
  have w3: "lastUpdate written = now" by (simp add: written_def)
  have wt: "qTable (writeEntry s1 ?k entry a td now) = T"
    unfolding T_def written_def by (rule written_table [OF g])
  have dT: "distinct (map fst T)" unfolding T_def using assms(2) by (rule AList.distinct_update)
  have ddT: "distinct T" by (rule distinct_keys_pairs [OF dT])
  have lenT: "maxStates (config s) < length T"
    using assms(3) by (simp add: T_def length_update)
  have c1: "config s1 = config s" using getOrCreateEntry_cases [OF g] by simp
  have tab: "qTable s' = evictOldest T (length T - m)"
    using lenT by (simp add: assms(4,6) u td pruneIfNeeded_def pruneQTable_def wt c1)
  have mle: "m \<le> maxStates (config s)" by (simp add: assms(6))
  have t1: "qTable s' = filter (\<lambda>p. p \<notin> set evicted) T"
    by (simp add: tab pruned_table [OF dT] evicted_def)
  have len: "length (qTable s') = m"
    using lenT mle by (simp add: tab length_evictOldest [OF dT])
  have sub: "set evicted \<subseteq> set T"
    unfolding evicted_def using set_take_subset [of "length T - m" "sort_key ?f T"] by simp
  have older: "\<forall>p\<in>set evicted. \<forall>q\<in>set (qTable s'). lastUpdate (snd p) \<le> lastUpdate (snd q)"
  proof (intro ballI)
    fix p q assume p: "p \<in> set evicted" and q: "q \<in> set (qTable s')"
    have pT: "p \<in> set T" using p sub by auto
    have "p \<notin> set (evictOldest T (length T - m))" using p by (simp add: tab [symmetric] t1)
    from evicted_older [OF dT pT this] q show "lastUpdate (snd p) \<le> lastUpdate (snd q)"
      by (simp add: tab)
  qed
  have ties: "\<forall>i j. i < j \<and> j < length T \<and> lastUpdate (snd (T ! i)) = lastUpdate (snd (T ! j)) \<and>
                  T ! i \<in> set (qTable s') \<longrightarrow> T ! j \<in> set (qTable s')"
  proof (intro allI impI)
    fix i j
    assume h: "i < j \<and> j < length T \<and> lastUpdate (snd (T ! i)) = lastUpdate (snd (T ! j)) \<and>
                  T ! i \<in> set (qTable s')"
    show "T ! j \<in> set (qTable s')"
    proof (rule ccontr)
      assume "T ! j \<notin> set (qTable s')"
      then have "T ! j \<in> set evicted" using h by (simp add: t1)
      then have "T ! i \<in> set evicted"
        unfolding evicted_def using h by (intro sorted_ties_in_order [OF ddT, of i j ?f]) simp_all
      then show False using h by (simp add: t1)
    qed
  qed
  have xT: "(?k, written) \<in> set T" unfolding T_def using set_update_distinct [OF assms(2)] by simp
  have dS: "distinct (map fst (qTable s'))" using dT by (simp add: t1 distinct_map_filter)
  have surv: "map_of (qTable s') ?k = Some written \<longleftrightarrow> (?k, written) \<notin> set evicted"
  proof
    assume "map_of (qTable s') ?k = Some written"
    then have "(?k, written) \<in> set (qTable s')" by (rule map_of_SomeD)
    then show "(?k, written) \<notin> set evicted" by (simp add: t1)
  next
    assume "(?k, written) \<notin> set evicted"
    then have "(?k, written) \<in> set (qTable s')" using xT by (simp add: t1)
    then show "map_of (qTable s') ?k = Some written" using dS by (rule map_of_is_SomeI [rotated])
  qed
  have setT: "set T = insert (?k, written) {p \<in> set (qTable s). fst p \<noteq> ?k}"
    unfolding T_def by (rule set_update_distinct [OF assms(2)])
  have crit: "map_of (qTable s') ?k = Some written"
    if m1: "1 \<le> m"
      and cond: "(\<forall>p\<in>set (qTable s). fst p \<noteq> ?k \<longrightarrow> lastUpdate (snd p) < now) \<or>
                 (?k \<notin> fst ` set (qTable s) \<and> (\<forall>p\<in>set (qTable s). lastUpdate (snd p) \<le> now))"
  proof -
    have nlt: "length T - m < length T" using m1 lenT by simp
    have xin: "(?k, written) \<in> set (qTable s')"
      using cond
    proof
      assume o: "\<forall>p\<in>set (qTable s). fst p \<noteq> ?k \<longrightarrow> lastUpdate (snd p) < now"
      have "\<forall>q\<in>set T. q \<noteq> (?k, written) \<longrightarrow> lastUpdate (snd q) < lastUpdate (snd (?k, written))"
        using o by (auto simp: setT w3)
      from newest_survives [OF dT xT nlt this] show ?thesis by (simp add: tab)
    next
      assume new: "?k \<notin> fst ` set (qTable s) \<and> (\<forall>p\<in>set (qTable s). lastUpdate (snd p) \<le> now)"
      then have T2: "T = qTable s @ [(?k, written)]" by (simp add: T_def update_new_key)
      have le: "\<forall>q\<in>set (qTable s). lastUpdate (snd q) \<le> lastUpdate (snd (?k, written))"
        using new by (simp add: w3)
      from last_inserted_survives [of "qTable s" "(?k, written)" "length T - m"] dT nlt le
      show ?thesis by (simp add: tab T2)
    qed
    then have "(?k, written) \<notin> set evicted" by (simp add: t1)
    then show ?thesis by (simp add: surv)
  qed
  show ?thesis
    using ia w1 w2 w3 T_def evicted_def t1 len mle older ties surv crit by blast
qed

theorem update_prunes_oldest_witness:
  "''coder'' \<in> set ROUTE_NAMES \<and>
   distinct (map fst (qTable smallRouter)) \<and>
   maxStates (config smallRouter)
     < length (qTable smallRouter) + (if hashState (utf16 ''b'') \<in> fst ` set (qTable smallRouter) then 0 else 1) \<and>
   maxStates (config smallRouter) * 4 div 5 = 1 \<and>
   length (qTable (snd (update smallRouter (utf16 ''b'') ''coder'' (Num 1) None 5 5))) = 1 \<and>
   map_option lastUpdate
     (map_of (qTable (snd (update smallRouter (utf16 ''b'') ''coder'' (Num 1) None 5 5))) (hashState (utf16 ''b'')))
     = Some 5"
proof -
  have a: "''coder'' \<in> set ROUTE_NAMES" by (simp add: ROUTE_NAMES_def)
  have b: "distinct (map fst (qTable smallRouter))"
    using hash_keys_distinct by (simp add: small_table)
  have n: "hashState (utf16 ''b'') \<notin> fst ` set (qTable smallRouter)"
    using hash_keys_distinct by (auto simp: small_table)
  have c: "maxStates (config smallRouter)
     < length (qTable smallRouter) + (if hashState (utf16 ''b'') \<in> fst ` set (qTable smallRouter) then 0 else 1)"
    using n by (simp add: small_table small_fields)
  have m: "maxStates (config smallRouter) * 4 div 5 = 1" by (simp add: small_fields)
  have o: "\<forall>p\<in>set (qTable smallRouter). lastUpdate (snd p) \<le> 5" by (simp add: small_table)
  from update_prunes_oldest [OF a b c refl refl refl refl, of "Num 1" None 5 5]
  obtain written where
    w: "lastUpdate written = 5"
      "length (qTable (snd (update smallRouter (utf16 ''b'') ''coder'' (Num 1) None 5 5)))
         = maxStates (config smallRouter) * 4 div 5"
      "1 \<le> maxStates (config smallRouter) * 4 div 5 \<and>
       ((\<forall>p\<in>set (qTable smallRouter). fst p \<noteq> hashState (utf16 ''b'') \<longrightarrow> lastUpdate (snd p) < 5) \<or>
        (hashState (utf16 ''b'') \<notin> fst ` set (qTable smallRouter) \<and>
         (\<forall>p\<in>set (qTable smallRouter). lastUpdate (snd p) \<le> 5)))
       \<longrightarrow> map_of (qTable (snd (update smallRouter (utf16 ''b'') ''coder'' (Num 1) None 5 5)))
              (hashState (utf16 ''b'')) = Some written"
    by blast
  have "map_of (qTable (snd (update smallRouter (utf16 ''b'') ''coder'' (Num 1) None 5 5)))
              (hashState (utf16 ''b'')) = Some written"
    using w(3) m n o by simp
  then show ?thesis using a b c m w(1,2) by simp
qed

text \<open>
  Claim C6 describes the cache that the module documents (``Caching for repeated task
  patterns (LRU cache)'', the fields \<^verbatim>\<open>routeCache\<close>, \<^verbatim>\<open>cacheOrder\<close>, \<^verbatim>\<open>cacheHits\<close>,
  \<^verbatim>\<open>cacheMisses\<close>, the settings \<^verbatim>\<open>cacheSize\<close> and \<^verbatim>\<open>cacheTTL\<close>), and the code departs
  from it: no method writes any of the four fields. Whatever calls a client makes on
  a new router, of any configuration and with any random source, the cache and its
  order list are empty and the two counters are 0 afterwards. In particular, after
  two identical calls \<^verbatim>\<open>route(text, false)\<close> on a new router nothing is cached and no
  hit is counted: the second call computes its decision from the Q-table again.
\<close>

theorem route_cache_never_filled:
  "routeCache (run rnd calls (newRouter cfg)) = [] \<and>
   cacheOrder (run rnd calls (newRouter cfg)) = [] \<and>
   cacheHits (run rnd calls (newRouter cfg)) = 0 \<and>
   cacheMisses (run rnd calls (newRouter cfg)) = 0 \<and>
   routeCache (run no_random [Route sampleTask False, Route sampleTask False] (newRouter DEFAULT_CONFIG)) = [] \<and>
   cacheHits (run no_random [Route sampleTask False, Route sampleTask False] (newRouter DEFAULT_CONFIG)) = 0 \<and>
   cacheMisses (run no_random [Route sampleTask False, Route sampleTask False] (newRouter DEFAULT_CONFIG)) = 0"
  using run_keeps_cache [of rnd calls "newRouter cfg"]
        run_keeps_cache [of no_random "[Route sampleTask False, Route sampleTask False]" "newRouter DEFAULT_CONFIG"]
  by simp





section \<open>Claims about the attention kernels\<close>

text \<open>
  Claim C10 states the safety that the validation is there to give (its last error
  reads ``Key and value dimensions must match''), and the code departs from it.
  \<^verbatim>\<open>validateInputs\<close> measures the first vector of each array only, so it accepts one
  query and two keys of dimension 2 with value vectors of lengths 2 and 1. The dot
  products are guarded by the shorter length, but the weighted sum is not: it reads
  \<^verbatim>\<open>values[1][1]\<close>, beyond the end of the second value vector. \<^verbatim>\<open>attention\<close> returns
  the output \<open>[[1, NaN]]\<close>, and the trace of its run holds that one read.
\<close>

theorem attention_reads_beyond_value_vector:
  "validateInputs raggedQueries raggedKeys raggedValues = Inr () \<and>
   length (hd raggedQueries) = 2 \<and>
   length (raggedValues ! 1) = 1 \<and>
   attention defaultAttentionConfig raggedQueries raggedKeys raggedValues
     = Some (Inr ([[Num 1, NaN]], [(1, 1)]))"
  by (simp add: ragged_valid ragged_attention) (simp add: raggedQueries_def raggedValues_def)


section \<open>Further properties\<close>

text \<open>
  X1. Every \<^verbatim>\<open>update\<close> with a known action increments the step count by one and sets
  epsilon by the linear law of the new step count, whatever decay type is configured;
  the new epsilon is never below \<^verbatim>\<open>explorationFinal\<close>.
\<close>

theorem update_epsilon_law:
  "action \<in> set ROUTE_NAMES \<longrightarrow>
     stepCount (snd (update s t action reward next created now)) = stepCount s + 1 \<and>
     epsilon (snd (update s t action reward next created now)) =
       (if explorationDecay (config s) = 0 then explorationFinal (config s)
        else max (explorationFinal (config s))
               (explorationInitial (config s) - real (stepCount s + 1) / explorationDecay (config s))) \<and>
     explorationFinal (config s) \<le> epsilon (snd (update s t action reward next created now))"
proof
  assume h: "action \<in> set ROUTE_NAMES"
  note e = update_epsilon_linear [OF h, of s t reward "next" created now]
  have "explorationFinal (config s) \<le> epsilon (snd (update s t action reward next created now))"
    using e by (simp add: decayedEpsilon_floor)
  with e show "stepCount (snd (update s t action reward next created now)) = stepCount s + 1 \<and>
     epsilon (snd (update s t action reward next created now)) =
       (if explorationDecay (config s) = 0 then explorationFinal (config s)
        else max (explorationFinal (config s))
               (explorationInitial (config s) - real (stepCount s + 1) / explorationDecay (config s))) \<and>
     explorationFinal (config s) \<le> epsilon (snd (update s t action reward next created now))"
    by (simp add: decayedEpsilon_def)
qed

theorem update_epsilon_law_witness:
  "''tester'' \<in> set ROUTE_NAMES \<and>
   stepCount trainedRouter = 1 \<and>
   epsilon trainedRouter = 1 / 100 \<and>
   explorationFinal quickDecayConfig \<le> epsilon trainedRouter"
proof -
  have m: "''tester'' \<in> set ROUTE_NAMES" by (simp add: ROUTE_NAMES_def)
  show ?thesis
    using update_epsilon_law [of "''tester''" "newRouter quickDecayConfig" sampleTask "Num 1" None 0 0] m
    by (simp add: trainedRouter_def)
qed

text \<open>
  X2. \<^verbatim>\<open>validateInputs\<close> accepts exactly the inputs whose three arrays are non-empty,
  with as many values as keys, and whose first query, first key and first value have
  one length; no other vector is measured.
\<close>

theorem validateInputs_first_vectors:
  "validateInputs queries keys vals = Inr () \<longleftrightarrow>
     queries \<noteq> [] \<and> keys \<noteq> [] \<and> vals \<noteq> [] \<and> length keys = length vals \<and>
     length (hd queries) = length (hd keys) \<and> length (hd keys) = length (hd vals)"
  by (rule validateInputs_accepts_iff)

text \<open>
  X3. \<^verbatim>\<open>dotProduct\<close> depends on the first \<open>min (len a) (len b)\<close> components of its
  operands only: cutting both operands to that length does not change the result.
\<close>

theorem dotProduct_reads_prefix:
  "dotProduct a b = dotProduct (take (min (length a) (length b)) a) (take (min (length a) (length b)) b)"
  by (rule dotProduct_prefix)

text \<open>
  X4. The tiled computation has the same unguarded read. Called with a block size of
  1 on the input of claim C10, \<^verbatim>\<open>blockAttention\<close> walks the two keys in two blocks,
  reads \<^verbatim>\<open>V[1][1]\<close> beyond the end of the second value vector and returns
  \<open>[[1, NaN]]\<close>.
\<close>

theorem tiled_reads_beyond_value_vector:
  "blockAttention defaultAttentionConfig raggedQueries raggedKeys raggedValues 1
     = Some (Inr ([[Num 1, NaN]], [(1, 1)]))"
  by (rule ragged_block)


end
